theory Spec2Isabelle
  imports Main "HOL-Library.Sublist" "HOL-Library.Char_ord"
begin

section \<open>Go strings as byte lists\<close>

text \<open>
  A Go \<open>string\<close> is a sequence of bytes and \<open>len\<close> counts bytes; it is modelled as
  \<^typ>\<open>string\<close> (a list of 8-bit characters).  The functions of this section are the
  functions of Go's \<open>strings\<close> package that the wrapper calls.
\<close>

abbreviation LF :: char where "LF \<equiv> CHR 0x0A"
abbreviation CR :: char where "CR \<equiv> CHR 0x0D"

text \<open>\<open>strings.HasPrefix\<close>.\<close>

definition HasPrefix :: "string \<Rightarrow> string \<Rightarrow> bool" where
  "HasPrefix s p = prefix p s"

text \<open>\<open>strings.Index\<close>: the position of the first occurrence, or \<open>-1\<close>.\<close>

fun Index :: "string \<Rightarrow> string \<Rightarrow> int" where
  "Index [] sub = (if sub = [] then 0 else -1)"
| "Index (c # s) sub =
     (if prefix sub (c # s) then 0
      else (let i = Index s sub in if i < 0 then -1 else i + 1))"

text \<open>\<open>strings.Contains\<close>.\<close>

definition Contains :: "string \<Rightarrow> string \<Rightarrow> bool" where
  "Contains s sub = (Index s sub \<ge> 0)"

text \<open>\<open>strings.ReplaceAll(s, "\r\n", "\n")\<close>: non-overlapping occurrences, left to right.\<close>

fun replaceCRLF :: "string \<Rightarrow> string" where
  "replaceCRLF (c # d # s) =
     (if c = CR \<and> d = LF then LF # replaceCRLF s else c # replaceCRLF (d # s))"
| "replaceCRLF s = s"

text \<open>
  \<open>strings.TrimSpace\<close> removes leading and trailing white space as Unicode defines it,
  decoding the bytes as UTF-8.  The white-space code points are the six ASCII ones and
  U+0085, U+00A0, U+1680, U+2000..U+200A, U+2028, U+2029, U+202F, U+205F, U+3000; an
  invalid byte decodes to U+FFFD, which is not white space.  On bytes this is: remove, as
  long as there is one, a leading (then a trailing) byte sequence that encodes one of them.
\<close>

definition asciiSpace :: "char list" where
  "asciiSpace = [CHR 0x09, CHR 0x0A, CHR 0x0B, CHR 0x0C, CHR 0x0D, CHR 0x20]"

definition unicodeSpace :: "string list" where
  "unicodeSpace =
     [[CHR 0xC2, CHR 0x85], [CHR 0xC2, CHR 0xA0], [CHR 0xE1, CHR 0x9A, CHR 0x80]] @
     map (\<lambda>c. [CHR 0xE2, CHR 0x80, c])
       [CHR 0x80, CHR 0x81, CHR 0x82, CHR 0x83, CHR 0x84, CHR 0x85, CHR 0x86, CHR 0x87,
        CHR 0x88, CHR 0x89, CHR 0x8A, CHR 0xA8, CHR 0xA9, CHR 0xAF] @
     [[CHR 0xE2, CHR 0x81, CHR 0x9F], [CHR 0xE3, CHR 0x80, CHR 0x80]]"

definition spaceRunes :: "string list" where
  "spaceRunes = map (\<lambda>c. [c]) asciiSpace @ unicodeSpace"

definition leadingSpace :: "string \<Rightarrow> nat" where
  "leadingSpace s = (case find (\<lambda>w. prefix w s) spaceRunes of None \<Rightarrow> 0 | Some w \<Rightarrow> length w)"

definition trailingSpace :: "string \<Rightarrow> nat" where
  "trailingSpace s = (case find (\<lambda>w. suffix w s) spaceRunes of None \<Rightarrow> 0 | Some w \<Rightarrow> length w)"

lemma spaceRunes_nonempty: "w \<in> set spaceRunes \<Longrightarrow> w \<noteq> []"
  by (auto simp: spaceRunes_def unicodeSpace_def)

lemma leadingSpace_le: "leadingSpace s \<le> length s"
  by (auto simp: leadingSpace_def prefix_length_le split: option.splits dest!: find_Some_iff[THEN iffD1])

lemma trailingSpace_le: "trailingSpace s \<le> length s"
  by (auto simp: trailingSpace_def suffix_length_le split: option.splits dest!: find_Some_iff[THEN iffD1])

function TrimLeftSpace :: "string \<Rightarrow> string" where
  "TrimLeftSpace s = (if leadingSpace s = 0 then s else TrimLeftSpace (drop (leadingSpace s) s))"
  by pat_completeness auto
termination
proof (relation "measure length")
  fix s :: string
  assume "leadingSpace s \<noteq> 0"
  moreover have "leadingSpace s \<le> length s" by (rule leadingSpace_le)
  ultimately show "(drop (leadingSpace s) s, s) \<in> measure length" by simp
qed simp

function TrimRightSpace :: "string \<Rightarrow> string" where
  "TrimRightSpace s =
     (if trailingSpace s = 0 then s else TrimRightSpace (take (length s - trailingSpace s) s))"
  by pat_completeness auto
termination
proof (relation "measure length")
  fix s :: string
  assume "trailingSpace s \<noteq> 0"
  moreover have "trailingSpace s \<le> length s" by (rule trailingSpace_le)
  ultimately show "(take (length s - trailingSpace s) s, s) \<in> measure length" by simp
qed simp

declare TrimLeftSpace.simps [simp del] TrimRightSpace.simps [simp del]

definition TrimSpace :: "string \<Rightarrow> string" where
  "TrimSpace s = TrimRightSpace (TrimLeftSpace s)"

text \<open>\<open>strings.TrimRight(s, "\r\n")\<close>: remove every trailing CR and LF byte.\<close>

definition TrimRightCRLF :: "string \<Rightarrow> string" where
  "TrimRightCRLF s = rev (dropWhile (\<lambda>c. c = CR \<or> c = LF) (rev s))"

text \<open>\<open>strings.Join\<close>.\<close>

fun Join :: "string list \<Rightarrow> string \<Rightarrow> string" where
  "Join [] sep = []"
| "Join [x] sep = x"
| "Join (x # y # xs) sep = x @ sep @ Join (y # xs) sep"

section \<open>Prompt assembly and front matter\<close>

definition wrapTaskWithAgentPrompt :: "string \<Rightarrow> string \<Rightarrow> string" where
  "wrapTaskWithAgentPrompt prompt task =
     ''<agent-prompt>'' @ [LF] @ prompt @ [LF] @ ''</agent-prompt>'' @ [LF, LF] @ task"

definition stripYAMLFrontmatter :: "string \<Rightarrow> string" where
  "stripYAMLFrontmatter s0 =
     (let s = replaceCRLF s0 in
      if \<not> HasPrefix s ''---'' then s
      else
        let idx = Index (drop 3 s) (LF # ''---'') in
        if idx < 0 then s
        else
          let result = drop (3 + nat idx + 4) s;
              result = (if length result > 0 \<and> hd result = LF then drop 1 result else result)
          in TrimSpace result)"

section \<open>Go's \<open>path/filepath\<close> on Unix\<close>

text \<open>
  The lexical path functions of Go's standard library, for the Unix separator \<open>/\<close>.
  \<open>Clean\<close> follows the rules of its documentation: drop empty and \<open>.\<close> elements, let an
  inner \<open>..\<close> remove the element before it, drop a \<open>..\<close> that would climb above the root,
  keep leading \<open>..\<close> elements of a relative path, and return \<open>.\<close> for an empty result.
\<close>

fun splitSep :: "string \<Rightarrow> string list" where
  "splitSep [] = [[]]"
| "splitSep (c # s) =
     (if c = CHR ''/'' then [] # splitSep s
      else (case splitSep s of [] \<Rightarrow> [[c]] | x # xs \<Rightarrow> (c # x) # xs))"

definition cleanStep :: "bool \<Rightarrow> string list \<Rightarrow> string \<Rightarrow> string list" where
  "cleanStep rooted out e =
     (if e = [] \<or> e = ''.'' then out
      else if e = ''..'' then
        (if out \<noteq> [] \<and> last out \<noteq> ''..'' then butlast out
         else if rooted then out
         else out @ [''..''])
      else out @ [e])"

definition Clean :: "string \<Rightarrow> string" where
  "Clean p =
     (if p = [] then ''.''
      else
        let rooted = (hd p = CHR ''/'');
            out = foldl (cleanStep rooted) [] (splitSep p)
        in if rooted then CHR ''/'' # Join out ''/''
           else if out = [] then ''.''
           else Join out ''/'')"

text \<open>\<open>filepath.Join\<close>: ignore leading empty elements, join the rest with \<open>/\<close>, clean.\<close>

definition filepath_Join :: "string list \<Rightarrow> string" where
  "filepath_Join elem =
     (case dropWhile (\<lambda>e. e = []) elem of [] \<Rightarrow> [] | es \<Rightarrow> Clean (Join es ''/''))"

definition IsAbs :: "string \<Rightarrow> bool" where
  "IsAbs p = HasPrefix p ''/''"

text \<open>
  \<open>filepath.Rel(basepath, targpath)\<close>.  Both paths are cleaned; equal paths give \<open>.\<close>;
  a rooted and an unrooted path cannot be related.  Otherwise the common leading elements
  are skipped; if the walk stops at a base element \<open>..\<close> that differs from the target's,
  the result is an error; each base element left becomes \<open>..\<close>, followed by what is left
  of the target.
\<close>

definition relElems :: "string \<Rightarrow> string list" where
  "relElems p = (let xs = splitSep p in if last xs = [] then butlast xs else xs)"

fun relWalk :: "string list \<Rightarrow> string list \<Rightarrow> string list \<times> string list" where
  "relWalk (b # bs) (t # ts) = (if b = t then relWalk bs ts else (b # bs, t # ts))"
| "relWalk bs ts = (bs, ts)"

datatype error = OSError string | RelError | PromptFileNotAllowed

definition Rel :: "string \<Rightarrow> string \<Rightarrow> error + string" where
  "Rel basepath targpath =
     (let base = Clean basepath; targ = Clean targpath in
      if targ = base then Inr ''.''
      else
        let base = (if base = ''.'' then [] else base);
            baseSlashed = (length base > 0 \<and> hd base = CHR ''/'');
            targSlashed = (length targ > 0 \<and> hd targ = CHR ''/'')
        in if baseSlashed \<noteq> targSlashed then Inl RelError
           else
             (case relWalk (relElems base) (relElems targ) of (bs, ts) \<Rightarrow>
                if bs \<noteq> [] \<and> ts \<noteq> [] \<and> hd bs = ''..'' then Inl RelError
                else if bs \<noteq> [] then
                  Inr (Join (replicate (length bs) ''..'' @ (if ts \<noteq> [] then [Join ts ''/''] else [])) ''/'')
                else Inr (Join ts ''/'')))"

section \<open>The operating system\<close>

text \<open>
  What the wrapper asks of the operating system, as a record of answers, and a trace of
  the calls made.  \<open>Stat\<close> is true where \<open>os.Stat\<close> returns no error.  The answers do not
  change while a function runs.  Every function below that calls the system takes the
  trace so far and returns the extended one.
\<close>

record os_env =
  UserHomeDir :: "error + string"
  Getwd :: "error + string"
  Stat :: "string \<Rightarrow> bool"
  ReadFile :: "string \<Rightarrow> error + string"
  EvalSymlinks :: "string \<Rightarrow> error + string"

datatype syscall =
  CallUserHomeDir | CallGetwd | CallStat string | CallReadFile string | CallEvalSymlinks string

type_synonym trace = "syscall list"

definition osUserHomeDir :: "os_env \<Rightarrow> trace \<Rightarrow> (error + string) \<times> trace" where
  "osUserHomeDir env tr = (UserHomeDir env, tr @ [CallUserHomeDir])"

definition osStat :: "os_env \<Rightarrow> string \<Rightarrow> trace \<Rightarrow> bool \<times> trace" where
  "osStat env p tr = (Stat env p, tr @ [CallStat p])"

definition osReadFile :: "os_env \<Rightarrow> string \<Rightarrow> trace \<Rightarrow> (error + string) \<times> trace" where
  "osReadFile env p tr = (ReadFile env p, tr @ [CallReadFile p])"

definition osEvalSymlinks :: "os_env \<Rightarrow> string \<Rightarrow> trace \<Rightarrow> (error + string) \<times> trace" where
  "osEvalSymlinks env p tr = (EvalSymlinks env p, tr @ [CallEvalSymlinks p])"

text \<open>\<open>filepath.Abs\<close>: an absolute path is cleaned; a relative one is joined to the
  working directory, which may fail.\<close>

definition filepath_Abs :: "os_env \<Rightarrow> string \<Rightarrow> trace \<Rightarrow> (error + string) \<times> trace" where
  "filepath_Abs env p tr =
     (if IsAbs p then (Inr (Clean p), tr)
      else (case Getwd env of
              Inl e \<Rightarrow> (Inl e, tr @ [CallGetwd])
            | Inr wd \<Rightarrow> (Inr (filepath_Join [wd, p]), tr @ [CallGetwd])))"

section \<open>Reading the agent prompt file\<close>

text \<open>The tilde expansion at the head of \<open>readAgentPromptFile\<close>.\<close>

definition expandHome :: "os_env \<Rightarrow> string \<Rightarrow> trace \<Rightarrow> (error + string) \<times> trace" where
  "expandHome env raw tr =
     (if raw = ''~'' \<or> HasPrefix raw ''~/'' \<or> HasPrefix raw [CHR ''~'', CHR 0x5C] then
        (case osUserHomeDir env tr of
           (Inl e, tr') \<Rightarrow> (Inl e, tr')
         | (Inr home, tr') \<Rightarrow> (Inr (if raw = ''~'' then home else home @ drop 1 raw), tr'))
      else (Inr raw, tr))"

definition allowedDirsOf :: "string \<Rightarrow> string list" where
  "allowedDirsOf home =
     [Clean (filepath_Join [home, ''.claude'']),
      Clean (filepath_Join [home, ''.codex'']),
      Clean (filepath_Join [home, ''.codeagent'', ''agents''])]"

text \<open>The loop \<open>for i := range allowedDirs\<close>: an entry is replaced by its cleaned absolute
  form when \<open>filepath.Abs\<close> succeeds, and kept otherwise.\<close>

fun absAllowedDirs :: "os_env \<Rightarrow> string list \<Rightarrow> trace \<Rightarrow> string list \<times> trace" where
  "absAllowedDirs env [] tr = ([], tr)"
| "absAllowedDirs env (d # ds) tr =
     (case filepath_Abs env d tr of
        (Inl e, tr') \<Rightarrow> (case absAllowedDirs env ds tr' of (r, tr'') \<Rightarrow> (d # r, tr''))
      | (Inr a, tr') \<Rightarrow> (case absAllowedDirs env ds tr' of (r, tr'') \<Rightarrow> (Clean a # r, tr'')))"

definition isWithinDir :: "string \<Rightarrow> string \<Rightarrow> bool" where
  "isWithinDir path dir =
     (case Rel dir path of
        Inl e \<Rightarrow> False
      | Inr rel0 \<Rightarrow>
          let rel = Clean rel0 in
          if rel = ''.'' then True
          else if rel = ''..'' then False
          else \<not> HasPrefix rel ''../'')"

text \<open>The loop building \<open>resolvedAllowed\<close>: directories that do not resolve are skipped.\<close>

fun resolveAllowedDirs :: "os_env \<Rightarrow> string list \<Rightarrow> trace \<Rightarrow> string list \<times> trace" where
  "resolveAllowedDirs env [] tr = ([], tr)"
| "resolveAllowedDirs env (d # ds) tr =
     (case osEvalSymlinks env d tr of
        (Inl e, tr') \<Rightarrow> resolveAllowedDirs env ds tr'
      | (Inr resolvedBase, tr') \<Rightarrow>
          (case resolveAllowedDirs env ds tr' of (r, tr'') \<Rightarrow> (Clean resolvedBase # r, tr'')))"

text \<open>The last statements of \<open>readAgentPromptFile\<close>, reached from every branch that does
  not return early.\<close>

definition readAndTrim :: "os_env \<Rightarrow> string \<Rightarrow> trace \<Rightarrow> (error + string) \<times> trace" where
  "readAndTrim env absPath tr =
     (case osReadFile env absPath tr of
        (Inl e, tr') \<Rightarrow> (Inl e, tr')
      | (Inr data, tr') \<Rightarrow> (Inr (TrimRightCRLF data), tr'))"

definition readAgentPromptFile ::
  "os_env \<Rightarrow> string \<Rightarrow> bool \<Rightarrow> trace \<Rightarrow> (error + string) \<times> trace" where
  "readAgentPromptFile env path allowOutsideClaudeDir tr0 =
     (let raw = TrimSpace path in
      if raw = [] then (Inr [], tr0)
      else
        (case expandHome env raw tr0 of
           (Inl e, tr1) \<Rightarrow> (Inl e, tr1)
         | (Inr expanded, tr1) \<Rightarrow>
        (case filepath_Abs env expanded tr1 of
           (Inl e, tr2) \<Rightarrow> (Inl e, tr2)
         | (Inr absPath0, tr2) \<Rightarrow>
        let absPath = Clean absPath0 in
        (case osUserHomeDir env tr2 of
           (Inl e, tr3) \<Rightarrow>
             if \<not> allowOutsideClaudeDir then (Inl e, tr3)
             else readAndTrim env absPath tr3
         | (Inr home, tr3) \<Rightarrow>
        (case absAllowedDirs env (allowedDirsOf home) tr3 of (allowedDirs, tr4) \<Rightarrow>
         if \<not> allowOutsideClaudeDir then
           if \<not> list_ex (isWithinDir absPath) allowedDirs then (Inl PromptFileNotAllowed, tr4)
           else
             (case osEvalSymlinks env absPath tr4 of
                (Inl errPath, tr5) \<Rightarrow> readAndTrim env absPath tr5
              | (Inr resolvedPath0, tr5) \<Rightarrow>
                  let resolvedPath = Clean resolvedPath0 in
                  (case resolveAllowedDirs env allowedDirs tr5 of (resolvedAllowed, tr6) \<Rightarrow>
                   if length resolvedAllowed > 0
                      \<and> \<not> list_ex (isWithinDir resolvedPath) resolvedAllowed
                   then (Inl PromptFileNotAllowed, tr6)
                   else readAndTrim env absPath tr6))
         else readAndTrim env absPath tr4)))))"

section \<open>Skills\<close>

text \<open>\<open>techSkillMap\<close>: fingerprint files and the skills they stand for.\<close>

definition techSkillMap :: "(string list \<times> string list) list" where
  "techSkillMap =
     [([''go.mod'', ''go.sum''], [''golang-base-practices'']),
      ([''Cargo.toml''], [''rust-best-practices'']),
      ([''pyproject.toml'', ''setup.py'', ''requirements.txt'', ''Pipfile''], [''python-best-practices'']),
      ([''package.json''], [''vercel-react-best-practices'', ''frontend-design'']),
      ([''vue.config.js'', ''vite.config.ts'', ''nuxt.config.ts''], [''vue-web-app''])]"

definition skillRoots :: "string \<Rightarrow> string list" where
  "skillRoots home =
     [filepath_Join [home, ''.codex'', ''skills''],
      filepath_Join [home, ''.claude'', ''skills'']]"

text \<open>The loop of \<open>findSkillFile\<close> over the roots; the empty string when no root has the file.\<close>

fun findInRoots :: "os_env \<Rightarrow> string \<Rightarrow> string list \<Rightarrow> trace \<Rightarrow> string \<times> trace" where
  "findInRoots env skill [] tr = ([], tr)"
| "findInRoots env skill (root # roots) tr =
     (let path = filepath_Join [root, skill, ''SKILL.md''] in
      case osStat env path tr of
        (True, tr') \<Rightarrow> (path, tr')
      | (False, tr') \<Rightarrow> findInRoots env skill roots tr')"

definition findSkillFile :: "os_env \<Rightarrow> string \<Rightarrow> string \<Rightarrow> trace \<Rightarrow> string \<times> trace" where
  "findSkillFile env home skill tr = findInRoots env skill (skillRoots home) tr"

text \<open>
  \<open>DetectProjectSkills\<close>.  The state of its loops is the list \<open>detected\<close>, the set of keys
  that \<open>seen\<close> maps to true, and the trace.
\<close>

type_synonym detect_state = "string list \<times> string set \<times> trace"

fun addSkills :: "os_env \<Rightarrow> string \<Rightarrow> string list \<Rightarrow> detect_state \<Rightarrow> detect_state" where
  "addSkills env home [] st = st"
| "addSkills env home (skill # skills) (detected, seen, tr) =
     (if skill \<in> seen then addSkills env home skills (detected, seen, tr)
      else
        (case findSkillFile env home skill tr of (path, tr') \<Rightarrow>
           if path \<noteq> [] then addSkills env home skills (detected @ [skill], insert skill seen, tr')
           else addSkills env home skills (detected, seen, tr')))"

fun scanFiles ::
  "os_env \<Rightarrow> string \<Rightarrow> string \<Rightarrow> string list \<Rightarrow> string list \<Rightarrow> detect_state \<Rightarrow> detect_state" where
  "scanFiles env home workDir [] skills st = st"
| "scanFiles env home workDir (f # files) skills (detected, seen, tr) =
     (case osStat env (filepath_Join [workDir, f]) tr of
        (True, tr') \<Rightarrow> addSkills env home skills (detected, seen, tr')
      | (False, tr') \<Rightarrow> scanFiles env home workDir files skills (detected, seen, tr'))"

fun scanEntries ::
  "os_env \<Rightarrow> string \<Rightarrow> string \<Rightarrow> (string list \<times> string list) list \<Rightarrow> detect_state \<Rightarrow> detect_state" where
  "scanEntries env home workDir [] st = st"
| "scanEntries env home workDir ((files, skills) # entries) st =
     scanEntries env home workDir entries (scanFiles env home workDir files skills st)"

definition DetectProjectSkills :: "os_env \<Rightarrow> string \<Rightarrow> trace \<Rightarrow> string list \<times> trace" where
  "DetectProjectSkills env workDir tr =
     (case osUserHomeDir env tr of
        (Inl e, tr') \<Rightarrow> ([], tr')
      | (Inr home, tr') \<Rightarrow>
          (case scanEntries env home workDir techSkillMap ([], {}, tr') of
             (detected, seen, tr'') \<Rightarrow> (detected, tr'')))"

definition defaultSkillBudget :: int where
  "defaultSkillBudget = 16000"

text \<open>\<open>validSkillName\<close>: the regular expression \<open>^[a-zA-Z0-9_-]+$\<close>, which Go matches against
  the whole text (\<open>$\<close> is the end of the text): one or more bytes, each of the class.\<close>

definition skillNameChar :: "char \<Rightarrow> bool" where
  "skillNameChar c =
     ((CHR ''a'' \<le> c \<and> c \<le> CHR ''z'') \<or> (CHR ''A'' \<le> c \<and> c \<le> CHR ''Z'')
      \<or> (CHR ''0'' \<le> c \<and> c \<le> CHR ''9'') \<or> c = CHR ''_'' \<or> c = CHR ''-'')"

definition validSkillName :: "string \<Rightarrow> bool" where
  "validSkillName name = (name \<noteq> [] \<and> list_all skillNameChar name)"

definition tagOverheadOf :: "string \<Rightarrow> int" where
  "tagOverheadOf name =
     int (length ''<skill name=\"\">'') + int (length name) + int (length [LF])
       + int (length (LF # ''</skill>''))"

definition skillBlock :: "string \<Rightarrow> string \<Rightarrow> string" where
  "skillBlock name body = ''<skill name=\"'' @ name @ ''\">'' @ [LF] @ body @ [LF] @ ''</skill>''"

text \<open>
  The loop of \<open>ResolveSkillContent\<close>.  Its state is \<open>remaining\<close>, \<open>sections\<close> and the
  trace; \<open>continue\<close> is the recursive call on the rest with the state as it is, \<open>break\<close>
  returns the state.
\<close>

type_synonym resolve_state = "int \<times> string list \<times> trace"

fun resolveLoop :: "os_env \<Rightarrow> string \<Rightarrow> string list \<Rightarrow> resolve_state \<Rightarrow> resolve_state" where
  "resolveLoop env home [] st = st"
| "resolveLoop env home (name0 # skills) (remaining, sections, tr) =
     (let name = TrimSpace name0 in
      if name = [] then resolveLoop env home skills (remaining, sections, tr)
      else if \<not> validSkillName name then resolveLoop env home skills (remaining, sections, tr)
      else
        (case findSkillFile env home name tr of (path, tr1) \<Rightarrow>
         if path = [] then resolveLoop env home skills (remaining, sections, tr1)
         else
           (case osReadFile env path tr1 of
              (Inl err, tr2) \<Rightarrow> resolveLoop env home skills (remaining, sections, tr2)
            | (Inr data, tr2) \<Rightarrow>
                if length data = 0 then resolveLoop env home skills (remaining, sections, tr2)
                else
                  let body = stripYAMLFrontmatter (TrimSpace data);
                      tagOverhead = tagOverheadOf name;
                      bodyBudget = remaining - tagOverhead
                  in if bodyBudget \<le> 0 then (remaining, sections, tr2)
                     else
                       let body = (if int (length body) > bodyBudget
                                   then take (nat bodyBudget) body else body);
                           remaining = remaining - (int (length body) + tagOverhead);
                           sections = sections @ [skillBlock name body]
                       in if remaining \<le> 0 then (remaining, sections, tr2)
                          else resolveLoop env home skills (remaining, sections, tr2))))"

text \<open>
  \<open>ResolveSkillContent\<close>, in two parts: \<open>resolveSections\<close> is the function up to the end of
  its loop and returns the list \<open>sections\<close>; \<open>ResolveSkillContent\<close> joins it.
\<close>

definition resolveSections :: "os_env \<Rightarrow> string list \<Rightarrow> int \<Rightarrow> trace \<Rightarrow> string list \<times> trace" where
  "resolveSections env skills maxBudget0 tr =
     (case osUserHomeDir env tr of
        (Inl e, tr') \<Rightarrow> ([], tr')
      | (Inr home, tr') \<Rightarrow>
          let maxBudget = (if maxBudget0 \<le> 0 then defaultSkillBudget else maxBudget0) in
          (case resolveLoop env home skills (maxBudget, [], tr') of
             (remaining, sections, tr'') \<Rightarrow> (sections, tr'')))"

definition ResolveSkillContent :: "os_env \<Rightarrow> string list \<Rightarrow> int \<Rightarrow> trace \<Rightarrow> string \<times> trace" where
  "ResolveSkillContent env skills maxBudget tr =
     (case resolveSections env skills maxBudget tr of
        (sections, tr') \<Rightarrow>
          if length sections = 0 then ([], tr')
          else (Join sections [LF, LF], tr'))"

section \<open>Notions used by the properties\<close>

text \<open>The bytes a list of skill blocks takes.\<close>

definition sectionBytes :: "string list \<Rightarrow> int" where
  "sectionBytes sections = sum_list (map (\<lambda>b. int (length b)) sections)"

text \<open>A text has a front-matter block when \<open>stripYAMLFrontmatter\<close> finds one: it starts with
  \<open>---\<close> and a line starting with \<open>---\<close> follows.\<close>

definition hasFrontmatter :: "string \<Rightarrow> bool" where
  "hasFrontmatter s = (HasPrefix s ''---'' \<and> Contains (drop 3 s) (LF # ''---''))"

text \<open>A home directory \<open>/h\<close> with the skill \<open>a\<close> installed for Codex and for Claude and the
  skills \<open>b\<close> and \<open>golang-base-practices\<close> for Claude only, and a project \<open>/w\<close> with a
  \<open>go.sum\<close>.\<close>

definition skillEnv :: os_env where
  "skillEnv = \<lparr>
     UserHomeDir = Inr ''/h'',
     Getwd = Inr ''/w'',
     Stat = (\<lambda>p. p \<in> set [''/h/.codex/skills/a/SKILL.md'', ''/h/.claude/skills/a/SKILL.md'',
                            ''/h/.claude/skills/b/SKILL.md'', ''/w/go.sum'',
                            ''/h/.claude/skills/golang-base-practices/SKILL.md'']),
     ReadFile = (\<lambda>p.
        if p = ''/h/.codex/skills/a/SKILL.md''
          then Inr (''---'' @ [LF] @ ''n: a'' @ [LF] @ ''---'' @ [LF, LF] @ ''codex body'' @ [LF])
        else if p = ''/h/.claude/skills/a/SKILL.md'' then Inr ''claude body''
        else if p = ''/h/.claude/skills/b/SKILL.md'' then Inr (replicate 60 (CHR ''b''))
        else if p = ''/h/.claude/skills/golang-base-practices/SKILL.md'' then Inr ''use gofmt''
        else Inl (OSError ''no such file'')),
     EvalSymlinks = (\<lambda>p. Inr p) \<rparr>"

text \<open>The two places of a skill's \<open>SKILL.md\<close>, and a skill being installed in one of them.\<close>

definition codexSkillFile :: "string \<Rightarrow> string \<Rightarrow> string" where
  "codexSkillFile home skill =
     filepath_Join [filepath_Join [home, ''.codex'', ''skills''], skill, ''SKILL.md'']"

definition claudeSkillFile :: "string \<Rightarrow> string \<Rightarrow> string" where
  "claudeSkillFile home skill =
     filepath_Join [filepath_Join [home, ''.claude'', ''skills''], skill, ''SKILL.md'']"

definition installed :: "os_env \<Rightarrow> string \<Rightarrow> string \<Rightarrow> bool" where
  "installed env home skill =
     (Stat env (codexSkillFile home skill) \<or> Stat env (claudeSkillFile home skill))"

definition fingerprintFiles :: "string list" where
  "fingerprintFiles = concat (map fst techSkillMap)"

text \<open>What the loops of \<open>DetectProjectSkills\<close> keep true of their state.\<close>

definition detect_inv :: "os_env \<Rightarrow> string \<Rightarrow> detect_state \<Rightarrow> bool" where
  "detect_inv env home st =
     (case st of (detected, seen, tr) \<Rightarrow>
        distinct detected \<and> set detected \<subseteq> seen \<and> (\<forall>s\<in>set detected. installed env home s))"

text \<open>A system without a home directory.\<close>

definition noHomeEnv :: os_env where
  "noHomeEnv = skillEnv \<lparr> UserHomeDir := Inl (OSError ''$HOME is not defined'') \<rparr>"

text \<open>A skill name that passes the check of \<open>ResolveSkillContent\<close>: trimmed, it matches
  \<open>validSkillName\<close>.\<close>

definition safeName :: "string \<Rightarrow> bool" where
  "safeName name0 = validSkillName (TrimSpace name0)"

text \<open>
  What \<open>ResolveSkillContent\<close> loads for a requested name before it looks at the budget: the
  trimmed name and the stripped body, or nothing when the name is not valid, the skill is
  not installed, or its file cannot be read or is empty.
\<close>

definition loadSkill :: "os_env \<Rightarrow> string \<Rightarrow> string \<Rightarrow> (string \<times> string) option" where
  "loadSkill env home name0 =
     (let name = TrimSpace name0 in
      if \<not> validSkillName name then None
      else if \<not> installed env home name then None
      else
        (case ReadFile env (fst (findSkillFile env home name [])) of
           Inl e \<Rightarrow> None
         | Inr data \<Rightarrow>
             if data = [] then None
             else Some (name, stripYAMLFrontmatter (TrimSpace data))))"

text \<open>
  The budget rule in the words of the specification, on the loaded skills in the order
  requested: the wrapping overhead is taken from the remaining budget; when nothing is left
  for the body, this skill and all later ones are omitted; a body longer than what is left
  is cut to fit; the block is added and its bytes are taken from the budget.
\<close>

fun budgetedBlocks :: "int \<Rightarrow> (string \<times> string) option list \<Rightarrow> string list" where
  "budgetedBlocks remaining [] = []"
| "budgetedBlocks remaining (None # rest) = budgetedBlocks remaining rest"
| "budgetedBlocks remaining (Some (name, body) # rest) =
     (let bodyBudget = remaining - tagOverheadOf name in
      if bodyBudget \<le> 0 then []
      else
        let kept = (if int (length body) > bodyBudget then take (nat bodyBudget) body else body)
        in skillBlock name kept
           # budgetedBlocks (remaining - (int (length kept) + tagOverheadOf name)) rest)"

text \<open>A text of white space only: a sequence of white-space code points in UTF-8.\<close>

definition onlyWhitespace :: "string \<Rightarrow> bool" where
  "onlyWhitespace s = (\<exists>ws. set ws \<subseteq> set spaceRunes \<and> s = concat ws)"

text \<open>
  A home directory \<open>/h\<close> with the prompt file \<open>/h/.claude/p.md\<close>, a symbolic link
  \<open>/h/.claude/link\<close> to the file \<open>/etc/secret\<close>, and a symbolic link \<open>/tmp/link\<close> to the
  prompt file; \<open>/h/.codex\<close> and \<open>/h/.codeagent/agents\<close> do not exist.
\<close>

definition promptEnv :: os_env where
  "promptEnv = \<lparr>
     UserHomeDir = Inr ''/h'',
     Getwd = Inr ''/w'',
     Stat = (\<lambda>p. False),
     ReadFile = (\<lambda>p.
        if p = ''/h/.claude/p.md'' \<or> p = ''/tmp/link'' then Inr (''hi'' @ [LF, CR, LF])
        else if p = ''/etc/secret'' \<or> p = ''/h/.claude/link'' then Inr (''secret'' @ [LF])
        else Inl (OSError ''no such file'')),
     EvalSymlinks = (\<lambda>p.
        if p = ''/h/.claude/link'' then Inr ''/etc/secret''
        else if p = ''/tmp/link'' then Inr ''/h/.claude/p.md''
        else if p \<in> set [''/h/.claude'', ''/h/.claude/p.md'', ''/etc/secret''] then Inr p
        else Inl (OSError ''no such file'')) \<rparr>"

text \<open>
  The notions of the prompt-file check.  \<open>fileReads\<close> lists the files read in a trace.
  \<open>promptAbsPath\<close> is the cleaned absolute path \<open>readAgentPromptFile\<close> computes from its
  argument (tilde expanded, made absolute), \<open>promptAllowedDirs\<close> the three allowed
  directories under the home directory; both are undefined where the function returns the
  system's error instead.  A path is lexically inside when \<open>isWithinDir\<close> holds for one of
  the directories.  The symbolic-link check passes when the path does not resolve, or none
  of the directories resolves, or the resolved path is within a resolved directory.
\<close>

fun fileReads :: "trace \<Rightarrow> string list" where
  "fileReads [] = []"
| "fileReads (CallReadFile p # tr) = p # fileReads tr"
| "fileReads (c # tr) = fileReads tr"

definition promptAbsPath :: "os_env \<Rightarrow> string \<Rightarrow> string option" where
  "promptAbsPath env path =
     (case expandHome env (TrimSpace path) [] of
        (Inl e, tr) \<Rightarrow> None
      | (Inr expanded, tr) \<Rightarrow>
          (case filepath_Abs env expanded [] of
             (Inl e, tr') \<Rightarrow> None
           | (Inr a, tr') \<Rightarrow> Some (Clean a)))"

definition promptAllowedDirs :: "os_env \<Rightarrow> string list option" where
  "promptAllowedDirs env =
     (case UserHomeDir env of
        Inl e \<Rightarrow> None
      | Inr home \<Rightarrow> Some (fst (absAllowedDirs env (allowedDirsOf home) [])))"

definition lexicallyInside :: "string \<Rightarrow> string list \<Rightarrow> bool" where
  "lexicallyInside p dirs = list_ex (isWithinDir p) dirs"

definition symlinkCheckPasses :: "os_env \<Rightarrow> string \<Rightarrow> string list \<Rightarrow> bool" where
  "symlinkCheckPasses env p dirs =
     (case EvalSymlinks env p of
        Inl e \<Rightarrow> True
      | Inr resolved \<Rightarrow>
          (let resolvedDirs = fst (resolveAllowedDirs env dirs []) in
           resolvedDirs = [] \<or> list_ex (isWithinDir (Clean resolved)) resolvedDirs))"

definition promptNoHomeEnv :: os_env where
  "promptNoHomeEnv = promptEnv \<lparr> UserHomeDir := Inl (OSError ''$HOME is not defined'') \<rparr>"

text \<open>
  The elements of a path.  A plain element is a non-empty name without a separator; a real
  element is a plain one other than \<open>.\<close> and \<open>..\<close>.  \<open>rootedElems\<close> gives the elements that
  \<open>Clean\<close> leaves of an absolute path.
\<close>

definition plainElem :: "string \<Rightarrow> bool" where
  "plainElem e = (e \<noteq> [] \<and> CHR ''/'' \<notin> set e)"

definition realElem :: "string \<Rightarrow> bool" where
  "realElem e = (plainElem e \<and> e \<noteq> ''.'' \<and> e \<noteq> ''..'')"

definition rootedElems :: "string \<Rightarrow> string list" where
  "rootedElems p = foldl (cleanStep True) [] (splitSep p)"

text \<open>The skill files of the requested names that pass the name check.\<close>

definition safeSkillFiles :: "os_env \<Rightarrow> string \<Rightarrow> string list \<Rightarrow> string set" where
  "safeSkillFiles env home skills =
     {fst (findSkillFile env home (TrimSpace n) []) | n. n \<in> set skills \<and> safeName n}"

section \<open>The byte budget of skill resolution\<close>

lemma length_skillBlock:
  "int (length (skillBlock name body)) = int (length body) + tagOverheadOf name"
  by (simp add: skillBlock_def tagOverheadOf_def)

lemma sectionBytes_snoc: "sectionBytes (xs @ [b]) = sectionBytes xs + int (length b)"
  by (simp add: sectionBytes_def)

text \<open>What the loop adds to \<open>sections\<close> it takes from \<open>remaining\<close>, which never goes below zero.\<close>

lemma resolveLoop_budget:
  "resolveLoop env home skills (remaining, sections, tr) = (remaining', sections', tr')
   \<Longrightarrow> 0 \<le> remaining
   \<Longrightarrow> 0 \<le> remaining' \<and> sectionBytes sections' + remaining' = sectionBytes sections + remaining"
proof (induction skills arbitrary: remaining sections tr)
  case Nil
  then show ?case by simp
next
  case (Cons name0 skills)
  show ?case
    using Cons.prems Cons.IH
    by (auto simp: Let_def sectionBytes_snoc length_skillBlock
             split: if_splits prod.splits sum.splits)
qed

lemma skillEnv_sections:
  "fst (resolveSections skillEnv [''a'', ''b''] 65 []) =
     [skillBlock ''a'' ''codex body'', skillBlock ''b'' ''bbb'']"
  by code_simp

text \<open>
  C1.  For every list of skill names and every positive budget \<open>B\<close>, the byte lengths of the
  wrapped skill blocks that \<open>ResolveSkillContent\<close> puts into its result sum to at most \<open>B\<close>.
  The blocks are the list \<open>resolveSections\<close> returns, which \<open>ResolveSkillContent\<close> joins.
\<close>

theorem resolve_within_budget:
  assumes "0 < B"
  shows "sectionBytes (fst (resolveSections env skills B tr)) \<le> B
         \<and> fst (ResolveSkillContent env skills B tr) =
             Join (fst (resolveSections env skills B tr)) [LF, LF]"
proof
  show "sectionBytes (fst (resolveSections env skills B tr)) \<le> B"
  proof (cases "UserHomeDir env")
    case (Inl e)
    then show ?thesis
      using assms by (simp add: resolveSections_def osUserHomeDir_def sectionBytes_def)
  next
    case (Inr home)
    obtain remaining' sections' tr' where
      l: "resolveLoop env home skills (B, [], tr @ [CallUserHomeDir]) = (remaining', sections', tr')"
      by (cases "resolveLoop env home skills (B, [], tr @ [CallUserHomeDir])") auto
    from resolveLoop_budget[OF l] assms
    have "0 \<le> remaining'" and "sectionBytes sections' + remaining' = B"
      by (simp_all add: sectionBytes_def)
    then have "sectionBytes sections' \<le> B" by linarith
    then show ?thesis
      using Inr l assms by (simp add: resolveSections_def osUserHomeDir_def)
  qed
  show "fst (ResolveSkillContent env skills B tr) =
          Join (fst (resolveSections env skills B tr)) [LF, LF]"
    by (simp add: ResolveSkillContent_def split: prod.splits)
qed

theorem resolve_within_budget_witness:
  "(0::int) < 65
   \<and> sectionBytes (fst (resolveSections skillEnv [''a'', ''b''] 65 [])) \<le> 65
   \<and> fst (resolveSections skillEnv [''a'', ''b''] 65 []) =
       [skillBlock ''a'' ''codex body'', skillBlock ''b'' ''bbb'']
   \<and> fst (ResolveSkillContent skillEnv [''a'', ''b''] 65 []) =
       skillBlock ''a'' ''codex body'' @ [LF, LF] @ skillBlock ''b'' ''bbb''"
proof -
  have "(0::int) < 65" by simp
  from resolve_within_budget[OF this, of skillEnv "[''a'', ''b'']" "[]"] skillEnv_sections
  show ?thesis by simp
qed

section \<open>The agent prompt wrapper\<close>

text \<open>
  C5 as stated: the assembled prompt is \<open><agent-prompt>\<close>, the file contents,
  \<open></agent-prompt>\<close>, two newlines and the body, with nothing else inserted.  The wrapper
  also puts a newline after the opening tag and one before the closing tag, so this fails
  already for the prompt \<open>P\<close> and the task \<open>do\<close> of the repository's own test.
\<close>

theorem wrap_no_newlines_counterexample:
  "wrapTaskWithAgentPrompt ''P'' ''do'' \<noteq>
     ''<agent-prompt>'' @ ''P'' @ ''</agent-prompt>'' @ [LF, LF] @ ''do''"
  by (simp add: wrapTaskWithAgentPrompt_def)

text \<open>
  C5, amended: the assembled prompt is \<open><agent-prompt>\<close>, a newline, the file contents, a
  newline, \<open></agent-prompt>\<close>, two newlines and the body; it is 33 bytes longer than the
  contents and the body together.
\<close>

theorem wrap_with_newlines:
  "wrapTaskWithAgentPrompt P T =
     ''<agent-prompt>'' @ [LF] @ P @ [LF] @ ''</agent-prompt>'' @ [LF, LF] @ T
   \<and> length (wrapTaskWithAgentPrompt P T) = length P + length T + 33"
  by (simp add: wrapTaskWithAgentPrompt_def)

section \<open>The front-matter stripper\<close>

lemma length_TrimLeftSpace: "length (TrimLeftSpace s) \<le> length s"
proof (induction s rule: TrimLeftSpace.induct)
  case (1 s)
  show ?case
  proof (cases "leadingSpace s = 0")
    case True
    then show ?thesis by (simp add: TrimLeftSpace.simps[of s])
  next
    case False
    with 1 have "length (TrimLeftSpace (drop (leadingSpace s) s)) \<le> length (drop (leadingSpace s) s)"
      by simp
    with False show ?thesis by (simp add: TrimLeftSpace.simps[of s])
  qed
qed

lemma length_TrimRightSpace: "length (TrimRightSpace s) \<le> length s"
proof (induction s rule: TrimRightSpace.induct)
  case (1 s)
  show ?case
  proof (cases "trailingSpace s = 0")
    case True
    then show ?thesis by (simp add: TrimRightSpace.simps[of s])
  next
    case False
    with 1 have "length (TrimRightSpace (take (length s - trailingSpace s) s))
                   \<le> length (take (length s - trailingSpace s) s)"
      by simp
    with False show ?thesis by (simp add: TrimRightSpace.simps[of s])
  qed
qed

lemma length_TrimSpace: "length (TrimSpace s) \<le> length s"
  unfolding TrimSpace_def
  using length_TrimRightSpace[of "TrimLeftSpace s"] length_TrimLeftSpace[of s] by linarith

lemma length_replaceCRLF: "length (replaceCRLF s) \<le> length s"
  by (induction s rule: replaceCRLF.induct) auto

lemma Index_ge: "Index s sub \<ge> -1"
  by (induction s) (auto simp: Let_def)

lemma replaceCRLF_fix: "\<not> Contains s [CR, LF] \<Longrightarrow> replaceCRLF s = s"
  unfolding Contains_def
proof (induction s rule: replaceCRLF.induct)
  case (1 c d s)
  then show ?case by (auto simp: Let_def split: if_splits)
qed auto

lemma replaceCRLF_shrinks: "Contains s [CR, LF] \<Longrightarrow> length (replaceCRLF s) < length s"
  unfolding Contains_def
proof (induction s rule: replaceCRLF.induct)
  case (1 c d s)
  then show ?case
    using length_replaceCRLF[of s] Index_ge[of "d # s" "[CR, LF]"]
    by (auto simp: Let_def split: if_splits)
qed auto

text \<open>The texts the stripper leaves as they are: those without a CR LF pair and without a
  front-matter block.  On every other text its result is shorter.\<close>

lemma strip_fixed_iff:
  "stripYAMLFrontmatter t = t \<longleftrightarrow> \<not> Contains t [CR, LF] \<and> \<not> hasFrontmatter t"
proof (cases "Contains t [CR, LF]")
  case True
  have "length (stripYAMLFrontmatter t) \<le> length (replaceCRLF t)"
    by (auto simp: stripYAMLFrontmatter_def Let_def intro: order_trans[OF length_TrimSpace])
  with replaceCRLF_shrinks[OF True] have "length (stripYAMLFrontmatter t) < length t"
    by simp
  with True show ?thesis by auto
next
  case False
  note r = replaceCRLF_fix[OF False]
  show ?thesis
  proof (cases "hasFrontmatter t")
    case True
    then have p: "prefix ''---'' t" and i: "Index (drop 3 t) (LF # ''---'') \<ge> 0"
      by (auto simp: hasFrontmatter_def HasPrefix_def Contains_def)
    from p have "length t \<ge> 3" by (auto simp: prefix_def)
    then have "length (stripYAMLFrontmatter t) < length t"
      using p i r length_TrimSpace[of "drop (7 + nat (Index (drop 3 t) (LF # ''---''))) t"]
        length_TrimSpace[of "drop 1 (drop (7 + nat (Index (drop 3 t) (LF # ''---''))) t)"]
      by (auto simp: stripYAMLFrontmatter_def Let_def HasPrefix_def)
    with True False show ?thesis by auto
  next
    case nf: False
    then show ?thesis
      using False r
      by (auto simp: stripYAMLFrontmatter_def Let_def hasFrontmatter_def Contains_def)
  qed
qed

text \<open>
  C4 as stated: stripping twice equals stripping once, for every input.  A document whose
  body, after its front matter, starts with another \<open>---\<close> block loses that block at the
  second stripping: from the four lines \<open>---\<close> and the line \<open>z\<close>, the first stripping
  leaves two lines \<open>---\<close> and \<open>z\<close>, the second leaves \<open>z\<close>.  And the replacement of
  CR LF by LF is done once: CR CR LF becomes CR LF, which a second stripping changes again.
\<close>

theorem strip_twice_counterexample:
  "stripYAMLFrontmatter (stripYAMLFrontmatter
       (''---'' @ [LF] @ ''---'' @ [LF] @ ''---'' @ [LF] @ ''---'' @ [LF] @ ''z''))
     \<noteq> stripYAMLFrontmatter
       (''---'' @ [LF] @ ''---'' @ [LF] @ ''---'' @ [LF] @ ''---'' @ [LF] @ ''z'')
   \<and> stripYAMLFrontmatter
       (''---'' @ [LF] @ ''---'' @ [LF] @ ''---'' @ [LF] @ ''---'' @ [LF] @ ''z'')
     = ''---'' @ [LF] @ ''---'' @ [LF] @ ''z''
   \<and> stripYAMLFrontmatter (''---'' @ [LF] @ ''---'' @ [LF] @ ''z'') = ''z''
   \<and> stripYAMLFrontmatter [CR, CR, LF] = [CR, LF]
   \<and> stripYAMLFrontmatter [CR, LF] = [LF]"
  by code_simp

text \<open>
  C4, amended: stripping twice equals stripping once exactly when the text stripped once
  contains no CR LF pair and does not start with a front-matter block of its own.
\<close>

theorem strip_twice_iff:
  "stripYAMLFrontmatter (stripYAMLFrontmatter s) = stripYAMLFrontmatter s
     \<longleftrightarrow> \<not> Contains (stripYAMLFrontmatter s) [CR, LF] \<and> \<not> hasFrontmatter (stripYAMLFrontmatter s)"
  by (rule strip_fixed_iff)

section \<open>Lexical paths\<close>

text \<open>
  For absolute paths the lexical functions have a simple meaning in terms of elements:
  \<open>Clean\<close> gives the root followed by the real elements, and \<open>isWithinDir\<close> holds exactly
  when the elements of the directory are the leading elements of the path.
\<close>

lemma splitSep_nonempty: "splitSep s \<noteq> []"
  by (induction s) (auto split: list.splits)

lemma splitSep_no_sep: "e \<in> set (splitSep s) \<Longrightarrow> CHR ''/'' \<notin> set e"
proof (induction s arbitrary: e)
  case Nil
  then show ?case by simp
next
  case (Cons c s)
  then show ?case
    using splitSep_nonempty[of s]
    by (cases "splitSep s") (auto split: if_splits)
qed

lemma splitSep_plain: "CHR ''/'' \<notin> set e \<Longrightarrow> splitSep (e @ CHR ''/'' # s) = e # splitSep s"
  by (induction e) (auto split: list.splits)

lemma splitSep_single: "CHR ''/'' \<notin> set e \<Longrightarrow> splitSep e = [e]"
  by (induction e) (auto split: list.splits)

lemma splitSep_Join:
  "xs \<noteq> [] \<Longrightarrow> \<forall>e\<in>set xs. CHR ''/'' \<notin> set e \<Longrightarrow> splitSep (Join xs ''/'') = xs"
proof (induction xs "''/''" rule: Join.induct)
  case 1
  then show ?case by simp
next
  case (2 x)
  then show ?case by (simp add: splitSep_single)
next
  case (3 x y xs)
  then show ?case by (simp add: splitSep_plain)
qed

lemma cleanStep_real: "realElem e \<Longrightarrow> cleanStep r out e = out @ [e]"
  by (auto simp: cleanStep_def realElem_def plainElem_def)

lemma foldl_cleanStep_real:
  "\<forall>e\<in>set xs. realElem e \<Longrightarrow> foldl (cleanStep r) out xs = out @ xs"
  by (induction xs arbitrary: out) (auto simp: cleanStep_real)

lemma cleanStep_rooted_real:
  "\<forall>e\<in>set out. realElem e \<Longrightarrow> CHR ''/'' \<notin> set e \<Longrightarrow> \<forall>x\<in>set (cleanStep True out e). realElem x"
  by (auto simp: cleanStep_def realElem_def plainElem_def dest: in_set_butlastD)

lemma foldl_cleanStep_rooted_real:
  "\<forall>e\<in>set out. realElem e \<Longrightarrow> \<forall>e\<in>set es. CHR ''/'' \<notin> set e \<Longrightarrow>
     \<forall>x\<in>set (foldl (cleanStep True) out es). realElem x"
proof (induction es arbitrary: out)
  case Nil
  then show ?case by simp
next
  case (Cons e es)
  have "\<forall>x\<in>set (cleanStep True out e). realElem x"
    using cleanStep_rooted_real[of out e] Cons.prems by simp
  then show ?case using Cons by simp
qed

lemma rootedElems_real: "\<forall>e\<in>set (rootedElems p). realElem e"
  unfolding rootedElems_def
  by (rule foldl_cleanStep_rooted_real) (auto dest: splitSep_no_sep)

lemma Clean_rooted: "IsAbs p \<Longrightarrow> Clean p = CHR ''/'' # Join (rootedElems p) ''/''"
  by (cases p) (auto simp: IsAbs_def HasPrefix_def Clean_def rootedElems_def Let_def)

lemma relElems_rooted:
  assumes "\<forall>e\<in>set xs. realElem e"
  shows "relElems (CHR ''/'' # Join xs ''/'') = [] # xs"
proof (cases "xs = []")
  case True
  then show ?thesis by (simp add: relElems_def)
next
  case False
  have s: "splitSep (Join xs ''/'') = xs"
    using assms False by (intro splitSep_Join) (auto simp: realElem_def plainElem_def)
  have "last xs \<noteq> []" using assms False by (auto simp: realElem_def plainElem_def dest: last_in_set)
  then show ?thesis using s False by (simp add: relElems_def Let_def)
qed

lemma Clean_rooted_idem:
  assumes "\<forall>e\<in>set xs. realElem e"
  shows "Clean (CHR ''/'' # Join xs ''/'') = CHR ''/'' # Join xs ''/''"
proof (cases "xs = []")
  case True
  then show ?thesis by (simp add: Clean_def cleanStep_def)
next
  case False
  have s: "splitSep (Join xs ''/'') = xs"
    using assms False by (intro splitSep_Join) (auto simp: realElem_def plainElem_def)
  show ?thesis
    using s assms by (simp add: Clean_def Let_def cleanStep_def foldl_cleanStep_real)
qed

lemma relWalk_split:
  "relWalk bs ts = (bs', ts') \<Longrightarrow>
     \<exists>c. bs = c @ bs' \<and> ts = c @ ts' \<and> (bs' = [] \<or> ts' = [] \<or> hd bs' \<noteq> hd ts')"
proof (induction bs ts rule: relWalk.induct)
  case (1 b bs t ts)
  show ?case
  proof (cases "b = t")
    case True
    with 1 obtain c where "bs = c @ bs'" "ts = c @ ts'" "bs' = [] \<or> ts' = [] \<or> hd bs' \<noteq> hd ts'"
      by auto
    then have "b # bs = (b # c) @ bs' \<and> t # ts = (b # c) @ ts'" using True by simp
    then show ?thesis using \<open>bs' = [] \<or> ts' = [] \<or> hd bs' \<noteq> hd ts'\<close> by blast
  next
    case False
    with 1 show ?thesis by auto
  qed
qed auto

lemma relWalk_prefix:
  assumes "relWalk bs ts = (bs', ts')"
  shows "prefix bs ts \<longleftrightarrow> bs' = []"
proof -
  from relWalk_split[OF assms] obtain c where
    c: "bs = c @ bs'" "ts = c @ ts'" "bs' = [] \<or> ts' = [] \<or> hd bs' \<noteq> hd ts'" by blast
  show ?thesis
  proof
    assume "prefix bs ts"
    then have "prefix bs' ts'" using c by simp
    then show "bs' = []" using c(3) by (cases bs'; cases ts') (auto)
  next
    assume "bs' = []"
    then show "prefix bs ts" using c by simp
  qed
qed

lemma Join_Cons: "rest \<noteq> [] \<Longrightarrow> Join (x # rest) sp = x @ sp @ Join rest sp"
  by (cases rest) auto

lemma Join_flatten: "ts \<noteq> [] \<Longrightarrow> Join (xs @ [Join ts sp]) sp = Join (xs @ ts) sp"
proof (induction xs)
  case Nil
  then show ?case by simp
next
  case (Cons x xs)
  then show ?case by (simp add: Join_Cons)
qed

lemma foldl_cleanStep_dotdots:
  "foldl (cleanStep False) (replicate k ''..'') (replicate n ''..'') = replicate (k + n) ''..''"
proof (induction n arbitrary: k)
  case 0
  then show ?case by simp
next
  case (Suc n)
  have "cleanStep False (replicate k ''..'') ''..'' = replicate (Suc k) ''..''"
    by (cases k) (auto simp: cleanStep_def replicate_append_same)
  then show ?case using Suc[of "Suc k"] by simp
qed

lemma Join_head:
  "xs \<noteq> [] \<Longrightarrow> \<exists>s. Join xs ''/'' = hd xs @ s \<and> (s = [] \<or> hd s = CHR ''/'') \<and> (s = [] \<longleftrightarrow> tl xs = [])"
  by (cases xs; cases "tl xs") auto

lemma Join_starts_plain:
  assumes "xs \<noteq> []" and "hd xs \<noteq> []" and "CHR ''/'' \<notin> set (hd xs)"
  shows "Join xs ''/'' \<noteq> [] \<and> hd (Join xs ''/'') \<noteq> CHR ''/''"
proof -
  obtain r where r: "Join xs ''/'' = hd xs @ r"
    using Join_head[OF assms(1)] by blast
  obtain a t where a: "hd xs = a # t" using assms(2) by (cases "hd xs") auto
  then have "a \<noteq> CHR ''/''" using assms(3) by auto
  then show ?thesis using r a by simp
qed

lemma Clean_unrooted_fixed:
  assumes ne: "xs \<noteq> []"
    and plain: "\<forall>e\<in>set xs. e \<noteq> [] \<and> CHR ''/'' \<notin> set e"
    and f: "foldl (cleanStep False) [] xs = xs"
  shows "Clean (Join xs ''/'') = Join xs ''/''"
proof -
  have s: "splitSep (Join xs ''/'') = xs"
    using ne plain by (intro splitSep_Join) auto
  have "hd xs \<in> set xs" using ne by simp
  then have j: "Join xs ''/'' \<noteq> [] \<and> hd (Join xs ''/'') \<noteq> CHR ''/''"
    using Join_starts_plain[OF ne] plain by blast
  have "Clean (Join xs ''/'') =
          (let out = foldl (cleanStep False) [] (splitSep (Join xs ''/''))
           in if out = [] then ''.'' else Join out ''/'')"
    using j unfolding Clean_def Let_def by presburger
  then show ?thesis using s f ne by (simp only: Let_def if_False)
qed

lemma Clean_relative:
  assumes ts: "\<forall>e\<in>set ts. realElem e" and ne: "replicate n ''..'' @ ts \<noteq> []"
  shows "Clean (Join (replicate n ''..'' @ ts) ''/'') = Join (replicate n ''..'' @ ts) ''/''"
proof (rule Clean_unrooted_fixed[OF ne])
  show "\<forall>e\<in>set (replicate n ''..'' @ ts). e \<noteq> [] \<and> CHR ''/'' \<notin> set e"
  proof
    fix e
    assume "e \<in> set (replicate n ''..'' @ ts)"
    then have "e = ''..'' \<or> e \<in> set ts" by auto
    then show "e \<noteq> [] \<and> CHR ''/'' \<notin> set e"
    proof
      assume "e = ''..''"
      then show ?thesis by simp
    next
      assume "e \<in> set ts"
      then have "realElem e" using ts by blast
      then show ?thesis by (simp add: realElem_def plainElem_def)
    qed
  qed
  have "foldl (cleanStep False) [] (replicate n ''..'') = replicate n ''..''"
    using foldl_cleanStep_dotdots[of 0 n] by simp
  moreover have "foldl (cleanStep False) [] (replicate n ''..'' @ ts) =
      foldl (cleanStep False) (foldl (cleanStep False) [] (replicate n ''..'')) ts"
    by (simp only: foldl_append)
  ultimately show "foldl (cleanStep False) [] (replicate n ''..'' @ ts) = replicate n ''..'' @ ts"
    using foldl_cleanStep_real[OF ts, of False "replicate n ''..''"] by (simp only:)
qed

lemma real_head_not_dots:
  assumes "realElem t" and "s = [] \<or> hd s = CHR ''/''"
  shows "t @ s \<noteq> ''.'' \<and> t @ s \<noteq> ''..'' \<and> \<not> prefix ''../'' (t @ s)"
proof -
  from assms(1) have t: "t \<noteq> []" "CHR ''/'' \<notin> set t" "t \<noteq> ''.''" "t \<noteq> ''..''"
    by (auto simp: realElem_def plainElem_def)
  show ?thesis
  proof (cases t)
    case Nil
    then show ?thesis using t by simp
  next
    case (Cons a t1)
    show ?thesis
    proof (cases t1)
      case Nil
      then show ?thesis using Cons t assms(2) by (cases s) auto
    next
      case c2: (Cons b t2)
      show ?thesis
      proof (cases t2)
        case Nil
        then show ?thesis using Cons c2 t assms(2) by (cases s) auto
      next
        case c3: (Cons c t3)
        then show ?thesis using Cons c2 t by auto
      qed
    qed
  qed
qed

lemma Rel_rooted:
  assumes "Clean b = b" and "Clean t = t" and "t \<noteq> b" and "b \<noteq> ''.''"
    and "length b > 0 \<and> hd b = CHR ''/''" and "length t > 0 \<and> hd t = CHR ''/''"
    and "relWalk (relElems b) (relElems t) = (bs, ts)"
    and "\<not> (bs \<noteq> [] \<and> ts \<noteq> [] \<and> hd bs = ''..'')"
  shows "Rel b t =
        Inr (if bs \<noteq> [] then Join (replicate (length bs) ''..'' @ (if ts \<noteq> [] then [Join ts ''/''] else [])) ''/''
             else Join ts ''/'')"
  unfolding Rel_def Let_def using assms by simp

lemma isWithinDir_rooted:
  assumes p: "IsAbs p" and d: "IsAbs d"
  shows "isWithinDir (Clean p) (Clean d) \<longleftrightarrow> prefix (rootedElems d) (rootedElems p)"
proof -
  let ?P = "rootedElems p" and ?D = "rootedElems d"
  have rP: "\<forall>e\<in>set ?P. realElem e" and rD: "\<forall>e\<in>set ?D. realElem e"
    by (rule rootedElems_real)+
  have cp: "Clean p = CHR ''/'' # Join ?P ''/''" and cd: "Clean d = CHR ''/'' # Join ?D ''/''"
    using p d by (simp_all add: Clean_rooted)
  have ccp: "Clean (Clean p) = Clean p" and ccd: "Clean (Clean d) = Clean d"
    using cp cd Clean_rooted_idem[OF rP] Clean_rooted_idem[OF rD] by simp_all
  have ep: "relElems (Clean p) = [] # ?P" and ed: "relElems (Clean d) = [] # ?D"
    using cp cd relElems_rooted[OF rP] relElems_rooted[OF rD] by simp_all
  show ?thesis
  proof (cases "Clean p = Clean d")
    case True
    then have "?P = ?D" using ep ed by simp
    moreover have "Rel (Clean d) (Clean p) = Inr ''.''"
      using True ccp ccd by (simp add: Rel_def)
    then have "isWithinDir (Clean p) (Clean d)"
      by (simp add: isWithinDir_def Clean_def cleanStep_def)
    ultimately show ?thesis by simp
  next
    case False
    obtain bs ts where w: "relWalk ?D ?P = (bs, ts)" by fastforce
    from relWalk_split[OF w] obtain c where
      c: "?D = c @ bs" "?P = c @ ts" by blast
    have rb: "\<forall>e\<in>set bs. realElem e" and rt: "\<forall>e\<in>set ts. realElem e"
      using rP rD c by (metis Un_iff set_append)+
    have pre: "prefix ?D ?P \<longleftrightarrow> bs = []" using relWalk_prefix[OF w] .
    have nb: "\<not> (bs \<noteq> [] \<and> ts \<noteq> [] \<and> hd bs = ''..'')"
      using rb by (auto simp: realElem_def dest: hd_in_set)
    have sl: "Clean d \<noteq> ''.''" "length (Clean d) > 0 \<and> hd (Clean d) = CHR ''/''"
      "length (Clean p) > 0 \<and> hd (Clean p) = CHR ''/''"
      using cp cd by simp_all
    have rel: "Rel (Clean d) (Clean p) =
        Inr (if bs \<noteq> [] then Join (replicate (length bs) ''..'' @ (if ts \<noteq> [] then [Join ts ''/''] else [])) ''/''
             else Join ts ''/'')"
    proof (rule Rel_rooted[OF ccd ccp _ sl])
      show "Clean p \<noteq> Clean d" by (rule False)
      show "relWalk (relElems (Clean d)) (relElems (Clean p)) = (bs, ts)"
        unfolding ep ed using w by simp
      show "\<not> (bs \<noteq> [] \<and> ts \<noteq> [] \<and> hd bs = ''..'')" by (rule nb)
    qed
    show ?thesis
    proof (cases "bs = []")
      case True
      have tne: "ts \<noteq> []" using True c False cp cd by auto
      have cl: "Clean (Join ts ''/'') = Join ts ''/''"
        using Clean_relative[OF rt, of 0] tne by simp
      obtain s where s: "Join ts ''/'' = hd ts @ s" "s = [] \<or> hd s = CHR ''/''"
        using Join_head[OF tne] by blast
      have "realElem (hd ts)" using rt tne by (auto dest: hd_in_set)
      from real_head_not_dots[OF this s(2)]
      have "isWithinDir (Clean p) (Clean d)"
        unfolding isWithinDir_def rel using True cl s by (simp add: HasPrefix_def)
      then show ?thesis using pre True by simp
    next
      case bne: False
      let ?xs = "replicate (length bs) ''..'' @ ts"
      have fl: "Join (replicate (length bs) ''..'' @ (if ts \<noteq> [] then [Join ts ''/''] else [])) ''/''
                 = Join ?xs ''/''"
        by (simp add: Join_flatten)
      have xne: "?xs \<noteq> []" using bne by simp
      have cl: "Clean (Join ?xs ''/'') = Join ?xs ''/''"
        using Clean_relative[OF rt xne] .
      obtain s where s: "Join ?xs ''/'' = hd ?xs @ s" "s = [] \<or> hd s = CHR ''/''"
        using Join_head[OF xne] by blast
      have hx: "hd ?xs = ''..''" using bne by (cases bs) auto
      have "Join ?xs ''/'' = ''..'' \<or> prefix ''../'' (Join ?xs ''/'')"
        using s hx by (cases s) auto
      moreover have "Join ?xs ''/'' \<noteq> ''.''" using s hx by auto
      moreover have "Rel (Clean d) (Clean p) = Inr (Join ?xs ''/'')"
        using rel bne fl by simp
      ultimately have "\<not> isWithinDir (Clean p) (Clean d)"
        unfolding isWithinDir_def using cl by (auto simp: HasPrefix_def Let_def)
      then show ?thesis using pre bne by simp
    qed
  qed
qed

lemma splitSep_append:
  "splitSep (a @ CHR ''/'' # b) = splitSep a @ splitSep b"
proof (induction a)
  case Nil
  then show ?case by simp
next
  case (Cons c a)
  then show ?case
    using splitSep_nonempty[of a]
    by (cases "splitSep a") auto
qed

lemma rootedElems_append:
  "rootedElems (a @ CHR ''/'' # b) = foldl (cleanStep True) (rootedElems a) (splitSep b)"
  by (simp add: rootedElems_def splitSep_append)

lemma rootedElems_clean:
  assumes "\<forall>e\<in>set xs. realElem e"
  shows "rootedElems (CHR ''/'' # Join xs ''/'') = xs"
proof (cases "xs = []")
  case True
  then show ?thesis by (simp add: rootedElems_def cleanStep_def)
next
  case False
  have "splitSep (Join xs ''/'') = xs"
    using assms False by (intro splitSep_Join) (auto simp: realElem_def plainElem_def)
  then show ?thesis
    using assms by (simp add: rootedElems_def cleanStep_def foldl_cleanStep_real)
qed

lemma rootedElems_two:
  assumes "realElem x" and "realElem y"
  shows "rootedElems (a @ CHR ''/'' # x @ CHR ''/'' # y) = rootedElems a @ [x, y]"
proof -
  have "CHR ''/'' \<notin> set x" "CHR ''/'' \<notin> set y"
    using assms by (simp_all add: realElem_def plainElem_def)
  then have "splitSep (x @ CHR ''/'' # y) = [x, y]"
    by (simp add: splitSep_plain splitSep_single)
  then show ?thesis
    using assms by (simp add: rootedElems_append cleanStep_real)
qed

lemma validSkillName_real: "validSkillName name \<Longrightarrow> realElem name"
  by (auto simp: validSkillName_def realElem_def plainElem_def skillNameChar_def list_all_iff)

lemma skillFile_rooted:
  assumes h: "IsAbs home" and n: "realElem name" and d: "realElem dir"
  shows "filepath_Join [filepath_Join [home, dir, ''skills''], name, ''SKILL.md''] =
           CHR ''/'' # Join (rootedElems home @ [dir, ''skills'', name, ''SKILL.md'']) ''/''"
proof -
  let ?H = "rootedElems home"
  have hne: "home \<noteq> []" using h by (auto simp: IsAbs_def HasPrefix_def)
  have sk: "realElem ''skills''" and md: "realElem ''SKILL.md''"
    by (simp_all add: realElem_def plainElem_def)
  have nosep: "CHR ''/'' \<notin> set dir" "CHR ''/'' \<notin> set name"
    using n d by (simp_all add: realElem_def plainElem_def)
  have abs1: "IsAbs (home @ CHR ''/'' # dir @ CHR ''/'' # ''skills'')"
    using h hne by (cases home) (auto simp: IsAbs_def HasPrefix_def)
  have e1: "rootedElems (home @ CHR ''/'' # dir @ CHR ''/'' # ''skills'') = ?H @ [dir, ''skills'']"
    by (rule rootedElems_two[OF d sk])
  have root: "filepath_Join [home, dir, ''skills''] = CHR ''/'' # Join (?H @ [dir, ''skills'']) ''/''"
    using hne Clean_rooted[OF abs1] e1 by (simp add: filepath_Join_def)
  let ?root = "CHR ''/'' # Join (?H @ [dir, ''skills'']) ''/''"
  have rr: "\<forall>e\<in>set (?H @ [dir, ''skills'']). realElem e"
    using rootedElems_real[of home] d sk by auto
  have abs2: "IsAbs (?root @ CHR ''/'' # name @ CHR ''/'' # ''SKILL.md'')"
    by (simp add: IsAbs_def HasPrefix_def)
  have e2: "rootedElems (?root @ CHR ''/'' # name @ CHR ''/'' # ''SKILL.md'') =
              (?H @ [dir, ''skills'']) @ [name, ''SKILL.md'']"
    by (simp only: rootedElems_two[OF n md] rootedElems_clean[OF rr])
  have "filepath_Join [?root, name, ''SKILL.md''] =
          CHR ''/'' # Join ((?H @ [dir, ''skills'']) @ [name, ''SKILL.md'']) ''/''"
    using Clean_rooted[OF abs2] e2 by (simp add: filepath_Join_def)
  then show ?thesis using root by simp
qed

lemma skill_files_differ:
  assumes h: "IsAbs home" and n: "validSkillName name"
  shows "codexSkillFile home name \<noteq> claudeSkillFile home name"
proof
  assume eq: "codexSkillFile home name = claudeSkillFile home name"
  let ?H = "rootedElems home"
  have rn: "realElem name" using n by (rule validSkillName_real)
  have rc: "realElem ''.codex''" and rl: "realElem ''.claude''"
    and sk: "realElem ''skills''" and md: "realElem ''SKILL.md''"
    by (simp_all add: realElem_def plainElem_def)
  have c: "codexSkillFile home name = CHR ''/'' # Join (?H @ [''.codex'', ''skills'', name, ''SKILL.md'']) ''/''"
    unfolding codexSkillFile_def by (rule skillFile_rooted[OF h rn rc])
  have l: "claudeSkillFile home name = CHR ''/'' # Join (?H @ [''.claude'', ''skills'', name, ''SKILL.md'']) ''/''"
    unfolding claudeSkillFile_def by (rule skillFile_rooted[OF h rn rl])
  have r1: "\<forall>e\<in>set (?H @ [''.codex'', ''skills'', name, ''SKILL.md'']). realElem e"
    using rootedElems_real[of home] rn rc sk md by auto
  have r2: "\<forall>e\<in>set (?H @ [''.claude'', ''skills'', name, ''SKILL.md'']). realElem e"
    using rootedElems_real[of home] rn rl sk md by auto
  have "rootedElems (codexSkillFile home name) = rootedElems (claudeSkillFile home name)"
    using eq by simp
  then have "?H @ [''.codex'', ''skills'', name, ''SKILL.md''] = ?H @ [''.claude'', ''skills'', name, ''SKILL.md'']"
    unfolding c l rootedElems_clean[OF r1] rootedElems_clean[OF r2] .
  then show False by simp
qed

section \<open>Finding a skill file\<close>

lemma Join_nonempty: "xs \<noteq> [] \<Longrightarrow> hd xs \<noteq> [] \<Longrightarrow> Join xs sep \<noteq> []"
  by (induction xs sep rule: Join.induct) auto

lemma cleanStep_no_empty: "[] \<notin> set out \<Longrightarrow> [] \<notin> set (cleanStep r out e)"
  by (auto simp: cleanStep_def dest: in_set_butlastD)

lemma foldl_cleanStep_no_empty: "[] \<notin> set out \<Longrightarrow> [] \<notin> set (foldl (cleanStep r) out es)"
  by (induction es arbitrary: out) (auto simp: cleanStep_no_empty)

lemma Clean_nonempty: "Clean p \<noteq> []"
proof -
  have "[] \<notin> set (foldl (cleanStep False) [] (splitSep p))"
    by (rule foldl_cleanStep_no_empty) simp
  then have "foldl (cleanStep False) [] (splitSep p) \<noteq> [] \<Longrightarrow>
             Join (foldl (cleanStep False) [] (splitSep p)) ''/'' \<noteq> []"
    by (intro Join_nonempty) (auto dest: hd_in_set)
  then show ?thesis by (auto simp: Clean_def Let_def)
qed

lemma skillFile_nonempty: "filepath_Join [root, skill, ''SKILL.md''] \<noteq> []"
  by (auto simp: filepath_Join_def Clean_nonempty split: list.splits)

lemma findSkillFile_cases:
  "findSkillFile env home skill tr =
     (if Stat env (codexSkillFile home skill)
        then (codexSkillFile home skill, tr @ [CallStat (codexSkillFile home skill)])
      else if Stat env (claudeSkillFile home skill)
        then (claudeSkillFile home skill,
              tr @ [CallStat (codexSkillFile home skill), CallStat (claudeSkillFile home skill)])
      else ([], tr @ [CallStat (codexSkillFile home skill), CallStat (claudeSkillFile home skill)]))"
  by (simp add: findSkillFile_def skillRoots_def osStat_def codexSkillFile_def
        claudeSkillFile_def Let_def)

lemma findSkillFile_found_iff:
  "fst (findSkillFile env home skill tr) \<noteq> [] \<longleftrightarrow> installed env home skill"
  by (auto simp: findSkillFile_cases installed_def codexSkillFile_def claudeSkillFile_def
        skillFile_nonempty)

section \<open>Detecting the skills of a project\<close>

lemma addSkills_inv:
  "detect_inv env home st \<Longrightarrow> detect_inv env home (addSkills env home skills st)"
proof (induction skills arbitrary: st)
  case Nil
  then show ?case by simp
next
  case (Cons skill skills)
  obtain detected seen tr where st: "st = (detected, seen, tr)" by (cases st) auto
  show ?case
  proof (cases "skill \<in> seen")
    case True
    then show ?thesis using Cons st by simp
  next
    case False
    obtain path tr' where f: "findSkillFile env home skill tr = (path, tr')" by fastforce
    show ?thesis
    proof (cases "path = []")
      case True
      have "detect_inv env home (detected, seen, tr')"
        using Cons.prems st by (simp add: detect_inv_def)
      then show ?thesis using Cons.IH st False f True by simp
    next
      case nf: False
      have "installed env home skill"
        using findSkillFile_found_iff[of env home skill tr] f nf by simp
      then have "detect_inv env home (detected @ [skill], insert skill seen, tr')"
        using Cons.prems st False by (auto simp: detect_inv_def)
      then show ?thesis using Cons.IH st False f nf by simp
    qed
  qed
qed

lemma scanFiles_inv:
  "detect_inv env home st \<Longrightarrow> detect_inv env home (scanFiles env home workDir files skills st)"
proof (induction files arbitrary: st)
  case Nil
  then show ?case by simp
next
  case (Cons f files)
  obtain detected seen tr where st: "st = (detected, seen, tr)" by (cases st) auto
  have a: "\<And>t. detect_inv env home (detected, seen, t)"
    using Cons.prems st by (simp add: detect_inv_def)
  show ?case
    using Cons.IH[OF a] addSkills_inv[OF a] st
    by (simp add: osStat_def split: bool.splits)
qed

lemma scanEntries_inv:
  "detect_inv env home st \<Longrightarrow> detect_inv env home (scanEntries env home workDir entries st)"
proof (induction entries arbitrary: st)
  case Nil
  then show ?case by simp
next
  case (Cons e entries)
  obtain files skills where e: "e = (files, skills)" by (cases e) auto
  show ?case using Cons e by (simp add: scanFiles_inv)
qed

lemma scanFiles_none:
  "\<forall>f\<in>set files. \<not> Stat env (filepath_Join [workDir, f]) \<Longrightarrow>
   fst (scanFiles env home workDir files skills (detected, seen, tr)) = detected
   \<and> fst (snd (scanFiles env home workDir files skills (detected, seen, tr))) = seen"
  by (induction files arbitrary: tr) (auto simp: osStat_def)

lemma scanEntries_none:
  "\<forall>f\<in>set (concat (map fst entries)). \<not> Stat env (filepath_Join [workDir, f]) \<Longrightarrow>
   fst (scanEntries env home workDir entries (detected, seen, tr)) = detected"
proof (induction entries arbitrary: tr)
  case Nil
  then show ?case by simp
next
  case (Cons e entries)
  obtain files skills where e: "e = (files, skills)" by (cases e) auto
  obtain tr' where s:
    "scanFiles env home workDir files skills (detected, seen, tr) = (detected, seen, tr')"
    using scanFiles_none[of files env workDir home skills detected seen tr] Cons.prems e
    by (cases "scanFiles env home workDir files skills (detected, seen, tr)") auto
  show ?case using Cons e s by simp
qed

lemma detected_inv:
  assumes "UserHomeDir env = Inr home"
  shows "distinct (fst (DetectProjectSkills env workDir tr))
         \<and> (\<forall>s\<in>set (fst (DetectProjectSkills env workDir tr)). installed env home s)"
proof -
  have "detect_inv env home ([], {}, tr @ [CallUserHomeDir])"
    by (simp add: detect_inv_def)
  from scanEntries_inv[OF this, of workDir techSkillMap] show ?thesis
    using assms
    by (auto simp: DetectProjectSkills_def osUserHomeDir_def detect_inv_def split: prod.splits)
qed

lemma detected_no_home:
  "UserHomeDir env = Inl e \<Longrightarrow> fst (DetectProjectSkills env workDir tr) = []"
  by (simp add: DetectProjectSkills_def osUserHomeDir_def)

text \<open>
  C8.  The list that \<open>DetectProjectSkills\<close> returns has no duplicate names.  This does not
  rest on the table \<open>techSkillMap\<close>: the loops return a duplicate-free list for every table
  of fingerprint files and skills, also one that names a skill in several entries.
\<close>

theorem detect_distinct:
  "distinct (fst (DetectProjectSkills env workDir tr))
   \<and> distinct (fst (scanEntries env home workDir entries ([], {}, tr)))"
proof
  show "distinct (fst (DetectProjectSkills env workDir tr))"
    by (cases "UserHomeDir env") (simp_all add: detected_no_home detected_inv)
  have "detect_inv env home ([], {}, tr)" by (simp add: detect_inv_def)
  from scanEntries_inv[OF this, of workDir entries]
  show "distinct (fst (scanEntries env home workDir entries ([], {}, tr)))"
    by (auto simp: detect_inv_def split: prod.splits)
qed

text \<open>
  C9.  Every skill name that \<open>DetectProjectSkills\<close> returns has a \<open>SKILL.md\<close> under the
  Codex or the Claude skills directory of the home directory; a working directory with none
  of the fingerprint files gives the empty list, and so does a home directory that cannot
  be determined.
\<close>

theorem detect_only_installed:
  "(\<forall>skill \<in> set (fst (DetectProjectSkills env workDir tr)).
       \<exists>home. UserHomeDir env = Inr home \<and> installed env home skill)
   \<and> ((\<forall>f \<in> set fingerprintFiles. \<not> Stat env (filepath_Join [workDir, f]))
        \<longrightarrow> fst (DetectProjectSkills env workDir tr) = [])
   \<and> ((\<exists>e. UserHomeDir env = Inl e) \<longrightarrow> fst (DetectProjectSkills env workDir tr) = [])"
proof (cases "UserHomeDir env")
  case (Inl e)
  then show ?thesis by (simp add: detected_no_home)
next
  case (Inr home)
  have "(\<forall>f \<in> set fingerprintFiles. \<not> Stat env (filepath_Join [workDir, f]))
        \<longrightarrow> fst (DetectProjectSkills env workDir tr) = []"
    using scanEntries_none[of techSkillMap env workDir home "[]" "{}" "tr @ [CallUserHomeDir]"] Inr
    by (auto simp: DetectProjectSkills_def osUserHomeDir_def fingerprintFiles_def
          split: prod.splits)
  then show ?thesis using detected_inv[OF Inr, of workDir tr] Inr by simp
qed

lemma skillEnv_detect:
  "fst (DetectProjectSkills skillEnv ''/w'' []) = [''golang-base-practices'']"
  by code_simp

lemma skillEnv_no_fingerprint:
  "\<forall>f \<in> set fingerprintFiles. \<not> Stat skillEnv (filepath_Join [''/x'', f])"
  by code_simp

theorem detect_only_installed_witness:
  "fst (DetectProjectSkills skillEnv ''/w'' []) = [''golang-base-practices'']
   \<and> installed skillEnv ''/h'' ''golang-base-practices''
   \<and> list_all (\<lambda>f. \<not> Stat skillEnv (filepath_Join [''/x'', f])) fingerprintFiles
   \<and> fst (DetectProjectSkills skillEnv ''/x'' []) = []
   \<and> UserHomeDir noHomeEnv = Inl (OSError ''$HOME is not defined'')
   \<and> fst (DetectProjectSkills noHomeEnv ''/w'' []) = []"
proof -
  have h: "UserHomeDir skillEnv = Inr ''/h''" by (simp add: skillEnv_def)
  have n: "UserHomeDir noHomeEnv = Inl (OSError ''$HOME is not defined'')"
    by (simp add: noHomeEnv_def)
  from detect_only_installed[of skillEnv "''/w''" "[]"] skillEnv_detect h
  have 1: "installed skillEnv ''/h'' ''golang-base-practices''" by simp
  from detect_only_installed[of skillEnv "''/x''" "[]"] skillEnv_no_fingerprint
  have 2: "fst (DetectProjectSkills skillEnv ''/x'' []) = []" by blast
  from detect_only_installed[of noHomeEnv "''/w''" "[]"] n
  have 3: "fst (DetectProjectSkills noHomeEnv ''/w'' []) = []" by blast
  show ?thesis using 1 2 3 n skillEnv_detect skillEnv_no_fingerprint
    by (simp add: list_all_iff)
qed

section \<open>Codex before Claude\<close>

text \<open>
  C7.  \<open>findSkillFile\<close> looks at the Codex skills directory first and at the Claude skills
  directory only when the Codex one has no \<open>SKILL.md\<close> for the name, and returns the first
  file found.  When the Codex copy exists, resolving a (valid) name checks and reads the
  Codex copy and makes no call on the Claude copy, which is another file: under an
  absolute home directory the two paths of a valid name differ.
\<close>

theorem find_prefers_codex:
  "findSkillFile env home skill tr =
     (if Stat env (codexSkillFile home skill)
        then (codexSkillFile home skill, tr @ [CallStat (codexSkillFile home skill)])
      else if Stat env (claudeSkillFile home skill)
        then (claudeSkillFile home skill,
              tr @ [CallStat (codexSkillFile home skill), CallStat (claudeSkillFile home skill)])
      else ([], tr @ [CallStat (codexSkillFile home skill), CallStat (claudeSkillFile home skill)]))
   \<and> (validSkillName (TrimSpace name0) \<and> Stat env (codexSkillFile home (TrimSpace name0)) \<longrightarrow>
        snd (snd (resolveLoop env home [name0] (remaining, sections, tr))) =
          tr @ [CallStat (codexSkillFile home (TrimSpace name0)),
                CallReadFile (codexSkillFile home (TrimSpace name0))])
   \<and> (IsAbs home \<and> validSkillName skill \<longrightarrow>
        codexSkillFile home skill \<noteq> claudeSkillFile home skill)"
proof (intro conjI)
  show "findSkillFile env home skill tr =
     (if Stat env (codexSkillFile home skill)
        then (codexSkillFile home skill, tr @ [CallStat (codexSkillFile home skill)])
      else if Stat env (claudeSkillFile home skill)
        then (claudeSkillFile home skill,
              tr @ [CallStat (codexSkillFile home skill), CallStat (claudeSkillFile home skill)])
      else ([], tr @ [CallStat (codexSkillFile home skill), CallStat (claudeSkillFile home skill)]))"
    by (rule findSkillFile_cases)
  show "validSkillName (TrimSpace name0) \<and> Stat env (codexSkillFile home (TrimSpace name0)) \<longrightarrow>
        snd (snd (resolveLoop env home [name0] (remaining, sections, tr))) =
          tr @ [CallStat (codexSkillFile home (TrimSpace name0)),
                CallReadFile (codexSkillFile home (TrimSpace name0))]"
    by (auto simp: findSkillFile_cases validSkillName_def Let_def osReadFile_def
          skillFile_nonempty codexSkillFile_def split: sum.splits)
  show "IsAbs home \<and> validSkillName skill \<longrightarrow>
        codexSkillFile home skill \<noteq> claudeSkillFile home skill"
    using skill_files_differ by blast
qed

lemma skillEnv_paths:
  "codexSkillFile ''/h'' ''a'' = ''/h/.codex/skills/a/SKILL.md''
   \<and> claudeSkillFile ''/h'' ''a'' = ''/h/.claude/skills/a/SKILL.md''"
  by code_simp

lemma skillEnv_stat:
  "Stat skillEnv ''/h/.codex/skills/a/SKILL.md'' \<and> Stat skillEnv ''/h/.claude/skills/a/SKILL.md''"
  by (simp add: skillEnv_def)

lemma skillEnv_name: "TrimSpace '' a '' = ''a'' \<and> validSkillName ''a''"
  by code_simp

lemma skillEnv_codex_content:
  "fst (ResolveSkillContent skillEnv ['' a ''] 0 []) = skillBlock ''a'' ''codex body''"
  by code_simp

theorem find_prefers_codex_witness:
  "Stat skillEnv ''/h/.codex/skills/a/SKILL.md'' \<and> Stat skillEnv ''/h/.claude/skills/a/SKILL.md''
   \<and> validSkillName (TrimSpace '' a '')
   \<and> findSkillFile skillEnv ''/h'' ''a'' [] =
        (''/h/.codex/skills/a/SKILL.md'', [CallStat ''/h/.codex/skills/a/SKILL.md''])
   \<and> snd (snd (resolveLoop skillEnv ''/h'' ['' a ''] (16000, [], []))) =
        [CallStat ''/h/.codex/skills/a/SKILL.md'', CallReadFile ''/h/.codex/skills/a/SKILL.md'']
   \<and> fst (ResolveSkillContent skillEnv ['' a ''] 0 []) = skillBlock ''a'' ''codex body''
   \<and> IsAbs ''/h'' \<and> codexSkillFile ''/h'' ''a'' \<noteq> claudeSkillFile ''/h'' ''a''"
  using find_prefers_codex[of skillEnv "''/h''" "''a''" "[]" "'' a ''" 16000 "[]"]
    skillEnv_codex_content
  by (simp del: resolveLoop.simps
        add: skillEnv_paths skillEnv_stat skillEnv_name IsAbs_def HasPrefix_def)

section \<open>The budget rule\<close>

lemma budgetedBlocks_exhausted: "remaining \<le> 0 \<Longrightarrow> budgetedBlocks remaining xs = []"
proof (induction xs)
  case Nil
  then show ?case by simp
next
  case (Cons x xs)
  then show ?case
    by (cases x) (auto simp: tagOverheadOf_def)
qed

lemma findSkillFile_fst:
  "fst (findSkillFile env home skill tr) = fst (findSkillFile env home skill [])"
  by (simp add: findSkillFile_cases)

lemma resolveLoop_budgeted:
  "fst (snd (resolveLoop env home skills (remaining, sections, tr))) =
     sections @ budgetedBlocks remaining (map (loadSkill env home) skills)"
proof (induction skills arbitrary: remaining sections tr)
  case Nil
  then show ?case by simp
next
  case (Cons name0 skills)
  show ?case
  proof (cases "loadSkill env home name0")
    case None
    then show ?thesis
      using Cons findSkillFile_found_iff[of env home "TrimSpace name0" tr]
         findSkillFile_fst[of env home "TrimSpace name0" tr]
      by (auto simp: loadSkill_def Let_def validSkillName_def osReadFile_def
            split: if_splits sum.splits prod.splits)
  next
    case (Some nb)
    obtain name body where nb: "nb = (name, body)" by (cases nb) auto
    show ?thesis
      using Some nb Cons findSkillFile_found_iff[of env home "TrimSpace name0" tr]
         findSkillFile_fst[of env home "TrimSpace name0" tr]
      by (auto simp: loadSkill_def Let_def validSkillName_def osReadFile_def
            budgetedBlocks_exhausted split: if_splits sum.splits prod.splits)
  qed
qed







section \<open>Blank paths and trimmed contents\<close>

lemma spaceRunes_prefix_free_all:
  "list_all (\<lambda>a. list_all (\<lambda>b. \<not> prefix a b \<or> a = b) spaceRunes) spaceRunes"
  by (simp add: spaceRunes_def asciiSpace_def unicodeSpace_def)

lemma spaceRunes_prefix_free:
  "a \<in> set spaceRunes \<Longrightarrow> b \<in> set spaceRunes \<Longrightarrow> prefix a b \<Longrightarrow> a = b"
  using spaceRunes_prefix_free_all by (auto simp: list_all_iff)

lemma leadingSpace_rune:
  assumes "w \<in> set spaceRunes"
  shows "leadingSpace (w @ rest) = length w"
proof -
  have "\<exists>x\<in>set spaceRunes. prefix x (w @ rest)"
    using assms by (intro bexI[of _ w]) auto
  then obtain w' where f: "find (\<lambda>x. prefix x (w @ rest)) spaceRunes = Some w'"
    by (cases "find (\<lambda>x. prefix x (w @ rest)) spaceRunes") (auto simp: find_None_iff)
  then have m: "w' \<in> set spaceRunes" and p: "prefix w' (w @ rest)"
    by (auto simp: find_Some_iff)
  have "prefix w' w \<or> prefix w w'"
    using p by (meson prefix_same_cases prefixI)
  then have "w' = w" using spaceRunes_prefix_free[OF m assms] spaceRunes_prefix_free[OF assms m] by auto
  then show ?thesis using f by (simp add: leadingSpace_def)
qed

lemma TrimLeftSpace_concat:
  "set ws \<subseteq> set spaceRunes \<Longrightarrow> TrimLeftSpace (concat ws) = []"
proof (induction ws)
  case Nil
  have "leadingSpace [] = 0"
    using leadingSpace_le[of "[]"] by simp
  then show ?case by (simp add: TrimLeftSpace.simps[of "[]"])
next
  case (Cons w ws)
  then have w: "w \<in> set spaceRunes" by simp
  have ne: "w \<noteq> []" using spaceRunes_nonempty[OF w] .
  show ?case
    using Cons leadingSpace_rune[OF w, of "concat ws"] ne
    by (simp add: TrimLeftSpace.simps[of "w @ concat ws"])
qed

lemma TrimSpace_onlyWhitespace: "onlyWhitespace s \<Longrightarrow> TrimSpace s = []"
proof -
  assume "onlyWhitespace s"
  then obtain ws where "set ws \<subseteq> set spaceRunes" "s = concat ws"
    by (auto simp: onlyWhitespace_def)
  then have "TrimLeftSpace s = []" by (simp add: TrimLeftSpace_concat)
  moreover have "TrimRightSpace [] = []"
    using length_TrimRightSpace[of "[]"] by simp
  ultimately show ?thesis by (simp add: TrimSpace_def)
qed

lemma readAndTrim_Inr:
  "readAndTrim env p tr = (Inr c, tr') \<Longrightarrow>
     \<exists>data. ReadFile env p = Inr data \<and> c = TrimRightCRLF data \<and> tr' = tr @ [CallReadFile p]"
  by (auto simp: readAndTrim_def osReadFile_def split: sum.splits)

lemma TrimRightCRLF_props:
  "(TrimRightCRLF d = [] \<or> (last (TrimRightCRLF d) \<noteq> CR \<and> last (TrimRightCRLF d) \<noteq> LF))
   \<and> (\<exists>t. d = TrimRightCRLF d @ t \<and> set t \<subseteq> {CR, LF})"
proof
  let ?P = "\<lambda>c. c = CR \<or> c = LF"
  let ?k = "dropWhile ?P (rev d)"
  have "?k \<noteq> [] \<Longrightarrow> \<not> ?P (hd ?k)" by (rule hd_dropWhile)
  moreover have "?k \<noteq> [] \<Longrightarrow> last (rev ?k) = hd ?k" by (simp only: last_rev)
  ultimately show "TrimRightCRLF d = [] \<or> (last (TrimRightCRLF d) \<noteq> CR \<and> last (TrimRightCRLF d) \<noteq> LF)"
    unfolding TrimRightCRLF_def by (cases "?k = []") simp_all
  have "rev ?k @ rev (takeWhile ?P (rev d)) = rev (takeWhile ?P (rev d) @ ?k)"
    by (simp only: rev_append)
  also have "\<dots> = d" by simp
  finally have "d = TrimRightCRLF d @ rev (takeWhile ?P (rev d))"
    unfolding TrimRightCRLF_def by simp
  moreover have "set (rev (takeWhile ?P (rev d))) \<subseteq> {CR, LF}"
    by (auto dest: set_takeWhileD)
  ultimately show "\<exists>t. d = TrimRightCRLF d @ t \<and> set t \<subseteq> {CR, LF}" by blast
qed

lemma read_success_is_readAndTrim:
  "TrimSpace path \<noteq> [] \<Longrightarrow> readAgentPromptFile env path allow tr = (Inr content, tr') \<Longrightarrow>
     \<exists>p tr1. readAndTrim env p tr1 = (Inr content, tr')"
  unfolding readAgentPromptFile_def Let_def
  by (auto split: prod.splits sum.splits if_splits)

text \<open>
  C10.  For a path of white space only, and either value of \<open>allowOutsideClaudeDir\<close>,
  \<open>readAgentPromptFile\<close> returns the empty string and no error and makes no call on the
  system.  Whenever it returns content for another path, it has read a file, and the
  content is what that file holds without its trailing CR and LF bytes: it is empty or ends
  in another byte.
\<close>

theorem blank_path_trimmed_content:
  "(onlyWhitespace path \<longrightarrow> readAgentPromptFile env path allow tr = (Inr [], tr))
   \<and> (TrimSpace path \<noteq> [] \<and> readAgentPromptFile env path allow tr = (Inr content, tr') \<longrightarrow>
        (\<exists>p data tr1. ReadFile env p = Inr data \<and> content = TrimRightCRLF data
                       \<and> tr' = tr1 @ [CallReadFile p])
        \<and> (content = [] \<or> (last content \<noteq> CR \<and> last content \<noteq> LF)))"
proof (intro conjI impI)
  assume "onlyWhitespace path"
  then show "readAgentPromptFile env path allow tr = (Inr [], tr)"
    by (simp add: readAgentPromptFile_def TrimSpace_onlyWhitespace)
next
  assume a: "TrimSpace path \<noteq> [] \<and> readAgentPromptFile env path allow tr = (Inr content, tr')"
  then obtain p tr1 where "readAndTrim env p tr1 = (Inr content, tr')"
    using read_success_is_readAndTrim by blast
  from readAndTrim_Inr[OF this]
  obtain data where d: "ReadFile env p = Inr data" "content = TrimRightCRLF data" "tr' = tr1 @ [CallReadFile p]"
    by blast
  then show "\<exists>p data tr1. ReadFile env p = Inr data \<and> content = TrimRightCRLF data
                       \<and> tr' = tr1 @ [CallReadFile p]" by blast
  show "content = [] \<or> (last content \<noteq> CR \<and> last content \<noteq> LF)"
    using d TrimRightCRLF_props[of data] by blast
qed

lemma blank_example: "onlyWhitespace [CHR 0x20, CHR 0x09, CHR 0xC2, CHR 0xA0, LF]"
  unfolding onlyWhitespace_def
  by (rule exI[of _ "[[CHR 0x20], [CHR 0x09], [CHR 0xC2, CHR 0xA0], [LF]]"])
     (simp add: spaceRunes_def asciiSpace_def unicodeSpace_def)

lemma promptEnv_read:
  "readAgentPromptFile promptEnv ''~/.claude/p.md'' False [] =
     (Inr ''hi'',
      [CallUserHomeDir, CallUserHomeDir, CallEvalSymlinks ''/h/.claude/p.md'',
       CallEvalSymlinks ''/h/.claude'', CallEvalSymlinks ''/h/.codex'',
       CallEvalSymlinks ''/h/.codeagent/agents'', CallReadFile ''/h/.claude/p.md''])
   \<and> TrimSpace ''~/.claude/p.md'' = ''~/.claude/p.md''"
  by code_simp

theorem blank_path_trimmed_content_witness:
  "onlyWhitespace [CHR 0x20, CHR 0x09, CHR 0xC2, CHR 0xA0, LF]
   \<and> readAgentPromptFile promptEnv [CHR 0x20, CHR 0x09, CHR 0xC2, CHR 0xA0, LF] False [CallGetwd] = (Inr [], [CallGetwd])
   \<and> readAgentPromptFile promptEnv [CHR 0x20, CHR 0x09, CHR 0xC2, CHR 0xA0, LF] True [] = (Inr [], [])
   \<and> TrimSpace ''~/.claude/p.md'' \<noteq> []
   \<and> fst (readAgentPromptFile promptEnv ''~/.claude/p.md'' False []) = Inr ''hi''
   \<and> ReadFile promptEnv ''/h/.claude/p.md'' = Inr (''hi'' @ [LF, CR, LF])
   \<and> last ''hi'' \<noteq> CR \<and> last ''hi'' \<noteq> LF"
proof -
  note b = blank_example
  from blank_path_trimmed_content[of "[CHR 0x20, CHR 0x09, CHR 0xC2, CHR 0xA0, LF]" promptEnv False "[CallGetwd]"] b
  have 1: "readAgentPromptFile promptEnv [CHR 0x20, CHR 0x09, CHR 0xC2, CHR 0xA0, LF] False [CallGetwd] = (Inr [], [CallGetwd])"
    by blast
  from blank_path_trimmed_content[of "[CHR 0x20, CHR 0x09, CHR 0xC2, CHR 0xA0, LF]" promptEnv True "[]"] b
  have 2: "readAgentPromptFile promptEnv [CHR 0x20, CHR 0x09, CHR 0xC2, CHR 0xA0, LF] True [] = (Inr [], [])"
    by blast
  have 3: "ReadFile promptEnv ''/h/.claude/p.md'' = Inr (''hi'' @ [LF, CR, LF])"
    by (simp add: promptEnv_def)
  from blank_path_trimmed_content[where env = promptEnv and path = "''~/.claude/p.md''" and allow = False
      and tr = "[]" and content = "''hi''"] promptEnv_read
  have 4: "''hi'' = [] \<or> (last ''hi'' \<noteq> CR \<and> last ''hi'' \<noteq> LF)"
    by simp
  show ?thesis using 1 2 3 4 b promptEnv_read by simp
qed

section \<open>The allowed directories of the prompt file\<close>

lemma fileReads_append: "fileReads (a @ b) = fileReads a @ fileReads b"
  by (induction a rule: fileReads.induct) auto

lemma expandHome_writer:
  "\<exists>t. fileReads t = [] \<and> expandHome env raw tr = (fst (expandHome env raw []), tr @ t)"
  by (auto simp: expandHome_def osUserHomeDir_def split: sum.splits)

lemma filepath_Abs_writer:
  "\<exists>t. fileReads t = [] \<and> filepath_Abs env p tr = (fst (filepath_Abs env p []), tr @ t)"
  by (auto simp: filepath_Abs_def split: sum.splits)

lemma absAllowedDirs_writer:
  "\<exists>t. fileReads t = [] \<and> absAllowedDirs env ds tr = (fst (absAllowedDirs env ds []), tr @ t)"
proof (induction ds arbitrary: tr)
  case Nil
  then show ?case by simp
next
  case (Cons d ds)
  obtain t1 where t1: "fileReads t1 = []"
     "filepath_Abs env d tr = (fst (filepath_Abs env d []), tr @ t1)"
    using filepath_Abs_writer by blast
  obtain t0 where t0: "fileReads t0 = []"
     "filepath_Abs env d [] = (fst (filepath_Abs env d []), t0)"
    using filepath_Abs_writer[of env d "[]"] by auto
  obtain t2 where t2: "fileReads t2 = []"
     "absAllowedDirs env ds (tr @ t1) = (fst (absAllowedDirs env ds []), (tr @ t1) @ t2)"
    using Cons.IH by blast
  obtain t3 where t3: "fileReads t3 = []"
     "absAllowedDirs env ds t0 = (fst (absAllowedDirs env ds []), t0 @ t3)"
    using Cons.IH by blast
  have "fileReads (t1 @ t2) = []" using t1 t2 by (simp add: fileReads_append)
  moreover have "absAllowedDirs env (d # ds) tr = (fst (absAllowedDirs env (d # ds) []), tr @ t1 @ t2)"
    using t0 t1 t2 t3 by (cases "fst (filepath_Abs env d [])") auto
  ultimately show ?case by blast
qed

lemma resolveAllowedDirs_writer:
  "\<exists>t. fileReads t = [] \<and> resolveAllowedDirs env ds tr = (fst (resolveAllowedDirs env ds []), tr @ t)"
proof (induction ds arbitrary: tr)
  case Nil
  then show ?case by simp
next
  case (Cons d ds)
  obtain t2 where t2: "fileReads t2 = []"
     "resolveAllowedDirs env ds (tr @ [CallEvalSymlinks d]) =
        (fst (resolveAllowedDirs env ds []), (tr @ [CallEvalSymlinks d]) @ t2)"
    using Cons.IH by blast
  obtain t3 where t3: "fileReads t3 = []"
     "resolveAllowedDirs env ds [CallEvalSymlinks d] =
        (fst (resolveAllowedDirs env ds []), [CallEvalSymlinks d] @ t3)"
    using Cons.IH by blast
  have "fileReads ([CallEvalSymlinks d] @ t2) = []" using t2 by simp
  moreover have "resolveAllowedDirs env (d # ds) tr =
      (fst (resolveAllowedDirs env (d # ds) []), tr @ [CallEvalSymlinks d] @ t2)"
    using t2 t3 by (cases "EvalSymlinks env d") (auto simp: osEvalSymlinks_def)
  ultimately show ?case by blast
qed

lemma restricted_some:
  assumes raw: "TrimSpace path \<noteq> []"
    and p: "promptAbsPath env path = Some p"
    and d: "promptAllowedDirs env = Some dirs"
  shows "\<exists>t. fileReads t = [] \<and>
           readAgentPromptFile env path False tr =
             (if lexicallyInside p dirs \<and> symlinkCheckPasses env p dirs
              then readAndTrim env p (tr @ t)
              else (Inl PromptFileNotAllowed, tr @ t))"
proof -
  from p obtain expanded a where
    e0: "fst (expandHome env (TrimSpace path) []) = Inr expanded" and
    a0: "fst (filepath_Abs env expanded []) = Inr a" and pa: "p = Clean a"
    by (auto simp: promptAbsPath_def split: prod.splits sum.splits)
  from d obtain home where h: "UserHomeDir env = Inr home"
    and ds: "dirs = fst (absAllowedDirs env (allowedDirsOf home) [])"
    by (auto simp: promptAllowedDirs_def split: sum.splits)
  obtain t1 where t1: "fileReads t1 = []"
    "expandHome env (TrimSpace path) tr = (Inr expanded, tr @ t1)"
    using expandHome_writer[of env "TrimSpace path" tr] e0 by auto
  obtain t2 where t2: "fileReads t2 = []"
    "filepath_Abs env expanded (tr @ t1) = (Inr a, (tr @ t1) @ t2)"
    using filepath_Abs_writer[of env expanded "tr @ t1"] a0 by auto
  let ?tr3 = "((tr @ t1) @ t2) @ [CallUserHomeDir]"
  obtain t4 where t4: "fileReads t4 = []"
    "absAllowedDirs env (allowedDirsOf home) ?tr3 = (dirs, ?tr3 @ t4)"
    using absAllowedDirs_writer[of env "allowedDirsOf home" ?tr3] ds by auto
  let ?tr5 = "(?tr3 @ t4) @ [CallEvalSymlinks p]"
  obtain t6 where t6: "fileReads t6 = []"
    "resolveAllowedDirs env dirs ?tr5 = (fst (resolveAllowedDirs env dirs []), ?tr5 @ t6)"
    using resolveAllowedDirs_writer[of env dirs ?tr5] by auto
  have base: "readAgentPromptFile env path False tr =
      (if \<not> lexicallyInside p dirs then (Inl PromptFileNotAllowed, ?tr3 @ t4)
       else (case EvalSymlinks env p of
               Inl e \<Rightarrow> readAndTrim env p ?tr5
             | Inr r \<Rightarrow>
                 if fst (resolveAllowedDirs env dirs []) \<noteq> []
                    \<and> \<not> list_ex (isWithinDir (Clean r)) (fst (resolveAllowedDirs env dirs []))
                 then (Inl PromptFileNotAllowed, ?tr5 @ t6)
                 else readAndTrim env p (?tr5 @ t6)))"
    using raw t1 t2 t4 t6 h pa
    by (simp add: readAgentPromptFile_def Let_def osUserHomeDir_def osEvalSymlinks_def
          lexicallyInside_def split: sum.splits)
  show ?thesis
  proof (cases "lexicallyInside p dirs")
    case False
    have "fileReads (t1 @ t2 @ [CallUserHomeDir] @ t4) = []"
      using t1 t2 t4 by (simp add: fileReads_append)
    moreover have "readAgentPromptFile env path False tr =
                     (Inl PromptFileNotAllowed, tr @ (t1 @ t2 @ [CallUserHomeDir] @ t4))"
      using base False by simp
    ultimately show ?thesis using False by metis
  next
    case True
    show ?thesis
    proof (cases "EvalSymlinks env p")
      case (Inl e)
      have "fileReads (t1 @ t2 @ [CallUserHomeDir] @ t4 @ [CallEvalSymlinks p]) = []"
        using t1 t2 t4 by (simp add: fileReads_append)
      moreover have "readAgentPromptFile env path False tr =
           readAndTrim env p (tr @ (t1 @ t2 @ [CallUserHomeDir] @ t4 @ [CallEvalSymlinks p]))"
        using base True Inl by simp
      moreover have "symlinkCheckPasses env p dirs"
        using Inl by (simp add: symlinkCheckPasses_def)
      ultimately show ?thesis using True by metis
    next
      case (Inr r)
      let ?t = "t1 @ t2 @ [CallUserHomeDir] @ t4 @ [CallEvalSymlinks p] @ t6"
      have f: "fileReads ?t = []"
        using t1 t2 t4 t6 by (simp add: fileReads_append)
      have s: "symlinkCheckPasses env p dirs \<longleftrightarrow>
            \<not> (fst (resolveAllowedDirs env dirs []) \<noteq> []
                \<and> \<not> list_ex (isWithinDir (Clean r)) (fst (resolveAllowedDirs env dirs [])))"
        using Inr by (auto simp: symlinkCheckPasses_def Let_def)
      have "readAgentPromptFile env path False tr =
             (if symlinkCheckPasses env p dirs
              then readAndTrim env p (tr @ ?t)
              else (Inl PromptFileNotAllowed, tr @ ?t))"
        using base True Inr s by simp
      then show ?thesis using True f by metis
    qed
  qed
qed

lemma restricted_none:
  assumes raw: "TrimSpace path \<noteq> []"
    and n: "promptAbsPath env path = None \<or> promptAllowedDirs env = None"
  shows "\<exists>e t. fileReads t = [] \<and> readAgentPromptFile env path False tr = (Inl e, tr @ t)"
proof -
  obtain t1 where t1: "fileReads t1 = []"
    "expandHome env (TrimSpace path) tr = (fst (expandHome env (TrimSpace path) []), tr @ t1)"
    using expandHome_writer[of env "TrimSpace path" tr] by auto
  show ?thesis
  proof (cases "fst (expandHome env (TrimSpace path) [])")
    case (Inl e)
    then show ?thesis using raw t1 by (auto simp: readAgentPromptFile_def)
  next
    case (Inr expanded)
    obtain t2 where t2: "fileReads t2 = []"
      "filepath_Abs env expanded (tr @ t1) = (fst (filepath_Abs env expanded []), (tr @ t1) @ t2)"
      using filepath_Abs_writer[of env expanded "tr @ t1"] by auto
    show ?thesis
    proof (cases "fst (filepath_Abs env expanded [])")
      case (Inl e)
      have "fileReads (t1 @ t2) = []" using t1 t2 by (simp add: fileReads_append)
      moreover have "readAgentPromptFile env path False tr = (Inl e, tr @ (t1 @ t2))"
        using raw t1 t2 Inr Inl by (simp add: readAgentPromptFile_def)
      ultimately show ?thesis by blast
    next
      case a: (Inr a)
      have "promptAbsPath env path \<noteq> None"
        using Inr a by (auto simp: promptAbsPath_def split: prod.splits sum.splits)
      with n have "promptAllowedDirs env = None" by simp
      then obtain e where e: "UserHomeDir env = Inl e"
        by (auto simp: promptAllowedDirs_def split: sum.splits)
      have "fileReads (t1 @ t2 @ [CallUserHomeDir]) = []" using t1 t2 by (simp add: fileReads_append)
      moreover have "readAgentPromptFile env path False tr = (Inl e, tr @ (t1 @ t2 @ [CallUserHomeDir]))"
        using raw t1 t2 Inr a e by (simp add: readAgentPromptFile_def Let_def osUserHomeDir_def)
      ultimately show ?thesis by blast
    qed
  qed
qed


text \<open>
  C2, amended.  With the restriction enabled and a path that is not blank:
  when the cleaned absolute path is lexically outside all of \<open>~/.claude\<close>, \<open>~/.codex\<close> and
  \<open>~/.codeagent/agents\<close>, or is inside but fails the symbolic-link check,
  \<open>readAgentPromptFile\<close> returns the error that the prompt file must be under these
  directories and reads no file; when the path is lexically inside one of them, passes the
  symbolic-link check and the file is readable, it returns the contents without the
  trailing CR and LF bytes, after reading that one file; and when the absolute path or the
  home directory cannot be determined it returns an error and reads no file.  Inside is
  what \<open>isWithinDir\<close> computes; between absolute paths this is: the elements of the
  directory are the leading elements of the path.
\<close>

theorem restricted_prompt_file:
  assumes "TrimSpace path \<noteq> []"
  shows
  "(promptAbsPath env path = Some p \<and> promptAllowedDirs env = Some dirs
      \<and> \<not> lexicallyInside p dirs \<longrightarrow>
        fst (readAgentPromptFile env path False tr) = Inl PromptFileNotAllowed
        \<and> fileReads (snd (readAgentPromptFile env path False tr)) = fileReads tr)
   \<and> (promptAbsPath env path = Some p \<and> promptAllowedDirs env = Some dirs
      \<and> lexicallyInside p dirs \<and> \<not> symlinkCheckPasses env p dirs \<longrightarrow>
        fst (readAgentPromptFile env path False tr) = Inl PromptFileNotAllowed
        \<and> fileReads (snd (readAgentPromptFile env path False tr)) = fileReads tr)
   \<and> (promptAbsPath env path = Some p \<and> promptAllowedDirs env = Some dirs
      \<and> lexicallyInside p dirs \<and> symlinkCheckPasses env p dirs \<and> ReadFile env p = Inr data \<longrightarrow>
        fst (readAgentPromptFile env path False tr) = Inr (TrimRightCRLF data)
        \<and> fileReads (snd (readAgentPromptFile env path False tr)) = fileReads tr @ [p])
   \<and> (promptAbsPath env path = None \<or> promptAllowedDirs env = None \<longrightarrow>
        (\<exists>e. fst (readAgentPromptFile env path False tr) = Inl e)
        \<and> fileReads (snd (readAgentPromptFile env path False tr)) = fileReads tr)
   \<and> (IsAbs a \<and> IsAbs d \<longrightarrow>
        isWithinDir (Clean a) (Clean d) = prefix (rootedElems d) (rootedElems a))"
proof (intro conjI impI)
  assume a: "promptAbsPath env path = Some p \<and> promptAllowedDirs env = Some dirs
      \<and> \<not> lexicallyInside p dirs"
  with restricted_some[OF assms, of env p dirs tr]
  show "fst (readAgentPromptFile env path False tr) = Inl PromptFileNotAllowed"
    and "fileReads (snd (readAgentPromptFile env path False tr)) = fileReads tr"
    by (auto simp: fileReads_append)
next
  assume a: "promptAbsPath env path = Some p \<and> promptAllowedDirs env = Some dirs
      \<and> lexicallyInside p dirs \<and> \<not> symlinkCheckPasses env p dirs"
  with restricted_some[OF assms, of env p dirs tr]
  show "fst (readAgentPromptFile env path False tr) = Inl PromptFileNotAllowed"
    and "fileReads (snd (readAgentPromptFile env path False tr)) = fileReads tr"
    by (auto simp: fileReads_append)
next
  assume a: "promptAbsPath env path = Some p \<and> promptAllowedDirs env = Some dirs
      \<and> lexicallyInside p dirs \<and> symlinkCheckPasses env p dirs \<and> ReadFile env p = Inr data"
  with restricted_some[OF assms, of env p dirs tr]
  show "fst (readAgentPromptFile env path False tr) = Inr (TrimRightCRLF data)"
    and "fileReads (snd (readAgentPromptFile env path False tr)) = fileReads tr @ [p]"
    by (auto simp: fileReads_append readAndTrim_def osReadFile_def)
next
  assume "promptAbsPath env path = None \<or> promptAllowedDirs env = None"
  with restricted_none[OF assms, of env tr]
  show "\<exists>e. fst (readAgentPromptFile env path False tr) = Inl e"
    and "fileReads (snd (readAgentPromptFile env path False tr)) = fileReads tr"
    by (auto simp: fileReads_append)
next
  assume "IsAbs a \<and> IsAbs d"
  then show "isWithinDir (Clean a) (Clean d) = prefix (rootedElems d) (rootedElems a)"
    using isWithinDir_rooted by blast
qed

text \<open>
  C2 as stated: a path whose resolved absolute form is outside the three directories is
  refused, and a readable file whose resolved path is inside one of them is returned.
  Whether "resolved" means made absolute or with symbolic links followed, the second half
  fails.  The link \<open>~/.claude/link\<close> is a readable file with its absolute path inside
  \<open>~/.claude\<close>, and is refused because it leads outside; the link \<open>/tmp/link\<close> resolves to
  a file inside \<open>~/.claude\<close>, and is refused because it stands outside.  And what is
  returned for \<open>~/.claude/p.md\<close> is not the contents as they are: the trailing newlines
  are gone.  The first half fails for a path that is not empty but blank: a single space
  names no file under the three directories, and the result is no error.
\<close>

theorem resolved_inside_counterexample:
  "isWithinDir ''/h/.claude/link'' ''/h/.claude''
   \<and> ReadFile promptEnv ''/h/.claude/link'' = Inr (''secret'' @ [LF])
   \<and> fst (readAgentPromptFile promptEnv ''~/.claude/link'' False []) = Inl PromptFileNotAllowed
   \<and> EvalSymlinks promptEnv ''/tmp/link'' = Inr ''/h/.claude/p.md''
   \<and> isWithinDir ''/h/.claude/p.md'' ''/h/.claude''
   \<and> ReadFile promptEnv ''/tmp/link'' = Inr (''hi'' @ [LF, CR, LF])
   \<and> fst (readAgentPromptFile promptEnv ''/tmp/link'' False []) = Inl PromptFileNotAllowed
   \<and> ReadFile promptEnv ''/h/.claude/p.md'' = Inr (''hi'' @ [LF, CR, LF])
   \<and> fst (readAgentPromptFile promptEnv ''~/.claude/p.md'' False []) = Inr ''hi''
   \<and> readAgentPromptFile promptEnv '' '' False [] = (Inr [], [])"
  by code_simp

lemma promptEnv_facts:
  "promptAllowedDirs promptEnv = Some [''/h/.claude'', ''/h/.codex'', ''/h/.codeagent/agents'']
   \<and> promptAbsPath promptEnv ''~/p.md'' = Some ''/h/p.md''
   \<and> promptAbsPath promptEnv ''~/.claude/link'' = Some ''/h/.claude/link''
   \<and> promptAbsPath promptEnv ''~/.claude/p.md'' = Some ''/h/.claude/p.md''
   \<and> promptAbsPath promptNoHomeEnv ''~/.claude/p.md'' = None
   \<and> TrimSpace ''~/p.md'' = ''~/p.md''
   \<and> TrimSpace ''~/.claude/link'' = ''~/.claude/link''
   \<and> TrimSpace ''~/.claude/p.md'' = ''~/.claude/p.md''"
  by code_simp

lemma promptEnv_checks:
  "\<not> lexicallyInside ''/h/p.md'' [''/h/.claude'', ''/h/.codex'', ''/h/.codeagent/agents'']
   \<and> lexicallyInside ''/h/.claude/link'' [''/h/.claude'', ''/h/.codex'', ''/h/.codeagent/agents'']
   \<and> \<not> symlinkCheckPasses promptEnv ''/h/.claude/link'' [''/h/.claude'', ''/h/.codex'', ''/h/.codeagent/agents'']
   \<and> lexicallyInside ''/h/.claude/p.md'' [''/h/.claude'', ''/h/.codex'', ''/h/.codeagent/agents'']
   \<and> symlinkCheckPasses promptEnv ''/h/.claude/p.md'' [''/h/.claude'', ''/h/.codex'', ''/h/.codeagent/agents'']
   \<and> ReadFile promptEnv ''/h/.claude/p.md'' = Inr (''hi'' @ [LF, CR, LF])
   \<and> TrimRightCRLF (''hi'' @ [LF, CR, LF]) = ''hi''"
  by code_simp

theorem restricted_prompt_file_witness:
  "TrimSpace ''~/p.md'' \<noteq> []
   \<and> promptAbsPath promptEnv ''~/p.md'' = Some ''/h/p.md''
   \<and> promptAllowedDirs promptEnv = Some [''/h/.claude'', ''/h/.codex'', ''/h/.codeagent/agents'']
   \<and> \<not> lexicallyInside ''/h/p.md'' [''/h/.claude'', ''/h/.codex'', ''/h/.codeagent/agents'']
   \<and> fst (readAgentPromptFile promptEnv ''~/p.md'' False []) = Inl PromptFileNotAllowed
   \<and> fileReads (snd (readAgentPromptFile promptEnv ''~/p.md'' False [])) = []
   \<and> lexicallyInside ''/h/.claude/link'' [''/h/.claude'', ''/h/.codex'', ''/h/.codeagent/agents'']
   \<and> \<not> symlinkCheckPasses promptEnv ''/h/.claude/link'' [''/h/.claude'', ''/h/.codex'', ''/h/.codeagent/agents'']
   \<and> fst (readAgentPromptFile promptEnv ''~/.claude/link'' False []) = Inl PromptFileNotAllowed
   \<and> fileReads (snd (readAgentPromptFile promptEnv ''~/.claude/link'' False [])) = []
   \<and> lexicallyInside ''/h/.claude/p.md'' [''/h/.claude'', ''/h/.codex'', ''/h/.codeagent/agents'']
   \<and> symlinkCheckPasses promptEnv ''/h/.claude/p.md'' [''/h/.claude'', ''/h/.codex'', ''/h/.codeagent/agents'']
   \<and> ReadFile promptEnv ''/h/.claude/p.md'' = Inr (''hi'' @ [LF, CR, LF])
   \<and> fst (readAgentPromptFile promptEnv ''~/.claude/p.md'' False []) = Inr ''hi''
   \<and> fileReads (snd (readAgentPromptFile promptEnv ''~/.claude/p.md'' False [])) = [''/h/.claude/p.md'']
   \<and> promptAbsPath promptNoHomeEnv ''~/.claude/p.md'' = None
   \<and> fileReads (snd (readAgentPromptFile promptNoHomeEnv ''~/.claude/p.md'' False [])) = []
   \<and> IsAbs ''/h/.claude/../p.md'' \<and> IsAbs ''/h/.claude''
   \<and> rootedElems ''/h/.claude/../p.md'' = [''h'', ''p.md'']
   \<and> rootedElems ''/h/.claude'' = [''h'', ''.claude'']
   \<and> \<not> isWithinDir (Clean ''/h/.claude/../p.md'') (Clean ''/h/.claude'')"
proof -
  let ?dirs = "[''/h/.claude'', ''/h/.codex'', ''/h/.codeagent/agents'']"
  note f = promptEnv_facts and c = promptEnv_checks
  have n1: "TrimSpace ''~/p.md'' \<noteq> []" and n2: "TrimSpace ''~/.claude/link'' \<noteq> []"
    and n3: "TrimSpace ''~/.claude/p.md'' \<noteq> []"
    using f by simp_all
  from restricted_prompt_file[OF n1, where env = promptEnv and p = "''/h/p.md''" and dirs = ?dirs
      and tr = "[]"] f c
  have 1: "fst (readAgentPromptFile promptEnv ''~/p.md'' False []) = Inl PromptFileNotAllowed
     \<and> fileReads (snd (readAgentPromptFile promptEnv ''~/p.md'' False [])) = []"
    by simp
  from restricted_prompt_file[OF n2, where env = promptEnv and p = "''/h/.claude/link''"
      and dirs = ?dirs and tr = "[]"] f c
  have 2: "fst (readAgentPromptFile promptEnv ''~/.claude/link'' False []) = Inl PromptFileNotAllowed
     \<and> fileReads (snd (readAgentPromptFile promptEnv ''~/.claude/link'' False [])) = []"
    by simp
  from restricted_prompt_file[OF n3, where env = promptEnv and p = "''/h/.claude/p.md''"
      and dirs = ?dirs and data = "''hi'' @ [LF, CR, LF]" and tr = "[]"] f c
  have 3: "fst (readAgentPromptFile promptEnv ''~/.claude/p.md'' False []) = Inr ''hi''
     \<and> fileReads (snd (readAgentPromptFile promptEnv ''~/.claude/p.md'' False [])) = [''/h/.claude/p.md'']"
    by simp
  from restricted_prompt_file[OF n3, where env = promptNoHomeEnv and tr = "[]"] f
  have 4: "fileReads (snd (readAgentPromptFile promptNoHomeEnv ''~/.claude/p.md'' False [])) = []"
    by simp
  have e: "IsAbs ''/h/.claude/../p.md'' \<and> IsAbs ''/h/.claude''
     \<and> rootedElems ''/h/.claude/../p.md'' = [''h'', ''p.md'']
     \<and> rootedElems ''/h/.claude'' = [''h'', ''.claude'']"
    by code_simp
  from restricted_prompt_file[OF n1, where a = "''/h/.claude/../p.md''" and d = "''/h/.claude''"] e
  have 5: "\<not> isWithinDir (Clean ''/h/.claude/../p.md'') (Clean ''/h/.claude'')"
    by simp
  show ?thesis using 1 2 3 4 5 e f c n1 by simp
qed

section \<open>Unsafe skill names\<close>

lemma resolveLoop_filter:
  "resolveLoop env home skills st = resolveLoop env home (filter safeName skills) st"
proof (induction skills arbitrary: st)
  case Nil
  then show ?case by simp
next
  case (Cons name0 skills)
  obtain remaining sections tr where st: "st = (remaining, sections, tr)" by (cases st) auto
  show ?case
  proof (cases "safeName name0")
    case False
    then show ?thesis using Cons st by (simp add: safeName_def Let_def)
  next
    case True
    then show ?thesis using Cons st
      by (auto simp: safeName_def Let_def split: prod.splits sum.splits)
  qed
qed

lemma resolveLoop_none:
  "\<forall>n\<in>set skills. \<not> safeName n \<Longrightarrow> resolveLoop env home skills st = st"
  using resolveLoop_filter[of env home skills st] by (simp add: filter_False)

lemma safeSkillFiles_Cons_subset:
  "safeSkillFiles env home skills \<subseteq> safeSkillFiles env home (n # skills)"
  by (auto simp: safeSkillFiles_def)

lemma safeSkillFiles_head:
  "safeName n \<Longrightarrow> fst (findSkillFile env home (TrimSpace n) []) \<in> safeSkillFiles env home (n # skills)"
  by (auto simp: safeSkillFiles_def)

lemma findSkillFile_no_reads:
  "fileReads (snd (findSkillFile env home skill tr)) = fileReads tr"
  by (simp add: findSkillFile_cases fileReads_append)

lemma resolveLoop_reads:
  "set (fileReads (snd (snd (resolveLoop env home skills (remaining, sections, tr)))))
     \<subseteq> set (fileReads tr) \<union> safeSkillFiles env home skills"
proof (induction skills arbitrary: remaining sections tr)
  case Nil
  then show ?case by simp
next
  case (Cons name0 skills)
  let ?S = "safeSkillFiles env home (name0 # skills)"
  have ih: "\<And>r s t. set (fileReads t) \<subseteq> set (fileReads tr) \<union> ?S \<Longrightarrow>
      set (fileReads (snd (snd (resolveLoop env home skills (r, s, t)))))
        \<subseteq> set (fileReads tr) \<union> ?S"
    using Cons.IH safeSkillFiles_Cons_subset[of env home skills name0] by blast
  show ?case
  proof (cases "safeName name0")
    case False
    then show ?thesis using ih[of tr] by (simp add: safeName_def Let_def)
  next
    case True
    obtain path tr1 where f: "findSkillFile env home (TrimSpace name0) tr = (path, tr1)"
      by fastforce
    have p: "path = fst (findSkillFile env home (TrimSpace name0) [])"
      using f findSkillFile_fst[of env home "TrimSpace name0" tr] by simp
    have r1: "fileReads tr1 = fileReads tr"
      using f findSkillFile_no_reads[of env home "TrimSpace name0" tr] by simp
    have ps: "path \<in> ?S" using p safeSkillFiles_head[OF True] by simp
    have t1: "set (fileReads tr1) \<subseteq> set (fileReads tr) \<union> ?S" using r1 by simp
    have t2: "set (fileReads (tr1 @ [CallReadFile path])) \<subseteq> set (fileReads tr) \<union> ?S"
      using r1 ps by (simp add: fileReads_append)
    show ?thesis
      using True f ih[OF t1] ih[OF t2] t2
      by (auto simp: safeName_def Let_def validSkillName_def osReadFile_def
            split: sum.splits if_splits)
  qed
qed

lemma resolve_single:
  assumes h: "UserHomeDir env = Inr home"
    and l: "loadSkill env home n = Some (name, body)"
    and b: "tagOverheadOf name < B" "int (length body) + tagOverheadOf name \<le> B"
  shows "ResolveSkillContent env [n] B tr =
           (skillBlock name body,
            snd (findSkillFile env home name (tr @ [CallUserHomeDir]))
              @ [CallReadFile (fst (findSkillFile env home name []))])"
proof -
  let ?tr = "tr @ [CallUserHomeDir]"
  from l have v: "validSkillName (TrimSpace n)" and nm: "name = TrimSpace n"
    and i: "installed env home name"
    by (auto simp: loadSkill_def Let_def split: if_splits sum.splits)
  from l v i nm obtain data where d: "ReadFile env (fst (findSkillFile env home name [])) = Inr data"
    "data \<noteq> []" "body = stripYAMLFrontmatter (TrimSpace data)"
    by (auto simp: loadSkill_def Let_def split: if_splits sum.splits)
  obtain path tr1 where f: "findSkillFile env home name ?tr = (path, tr1)" by fastforce
  have p: "path = fst (findSkillFile env home name [])"
    using f findSkillFile_fst[of env home name ?tr] by simp
  have pne: "path \<noteq> []"
    using i findSkillFile_found_iff[of env home name ?tr] f by simp
  have B0: "0 < B" using b(1) by (simp add: tagOverheadOf_def)
  have "resolveLoop env home [n] (B, [], ?tr) =
          (B - (int (length body) + tagOverheadOf name), [skillBlock name body],
           tr1 @ [CallReadFile path])"
    using v nm f p pne d b
    by (simp add: Let_def validSkillName_def osReadFile_def)
  then show ?thesis
    using h B0 f p
    by (simp add: ResolveSkillContent_def resolveSections_def osUserHomeDir_def)
qed

text \<open>
  C6.  A name that, trimmed, does not match \<open>^[A-Za-z0-9_-]+$\<close> leaves no mark: the result
  of \<open>ResolveSkillContent\<close> and the calls it makes on the system are those for the list
  without such names; when no name matches, the result is empty and the only call is the
  one for the home directory.  The names that match are processed: the blocks built are
  those of the budget rule on what loads for the matching names, in their order; the files
  read are skill files of matching names only; and a list whose one matching name loads
  and fits the budget yields that skill's block, after looking up and reading its file.
\<close>

theorem unsafe_names_dropped:
  "ResolveSkillContent env skills B tr = ResolveSkillContent env (filter safeName skills) B tr
   \<and> ((\<forall>n\<in>set skills. \<not> safeName n) \<longrightarrow>
        ResolveSkillContent env skills B tr = ([], tr @ [CallUserHomeDir]))
   \<and> (UserHomeDir env = Inr home \<longrightarrow>
        fst (resolveSections env skills B tr) =
          budgetedBlocks (if B \<le> 0 then defaultSkillBudget else B)
            (map (loadSkill env home) (filter safeName skills))
        \<and> set (fileReads (snd (ResolveSkillContent env skills B tr)))
             \<subseteq> set (fileReads tr) \<union> safeSkillFiles env home skills)
   \<and> (UserHomeDir env = Inr home \<and> filter safeName skills = [n]
        \<and> loadSkill env home n = Some (name, body)
        \<and> tagOverheadOf name < B \<and> int (length body) + tagOverheadOf name \<le> B \<longrightarrow>
        ResolveSkillContent env skills B tr =
          (skillBlock name body,
           snd (findSkillFile env home name (tr @ [CallUserHomeDir]))
             @ [CallReadFile (fst (findSkillFile env home name []))]))"
proof (intro conjI impI)
  show eq: "ResolveSkillContent env skills B tr = ResolveSkillContent env (filter safeName skills) B tr"
    using resolveLoop_filter[of env _ skills]
    by (simp add: ResolveSkillContent_def resolveSections_def split: prod.splits sum.splits)
  {
    assume "\<forall>n\<in>set skills. \<not> safeName n"
    then show "ResolveSkillContent env skills B tr = ([], tr @ [CallUserHomeDir])"
      using resolveLoop_none[of skills env]
      by (auto simp: ResolveSkillContent_def resolveSections_def osUserHomeDir_def
            split: prod.splits sum.splits)
  }
  {
    assume h: "UserHomeDir env = Inr home"
    let ?B = "if B \<le> 0 then defaultSkillBudget else B"
    let ?tr = "tr @ [CallUserHomeDir]"
    have "fst (snd (resolveLoop env home skills (?B, [], ?tr))) =
            fst (snd (resolveLoop env home (filter safeName skills) (?B, [], ?tr)))"
      using resolveLoop_filter[of env home skills] by simp
    also have "\<dots> = budgetedBlocks ?B (map (loadSkill env home) (filter safeName skills))"
      using resolveLoop_budgeted[of env home "filter safeName skills" ?B "[]" ?tr] by simp
    finally show "fst (resolveSections env skills B tr) =
          budgetedBlocks ?B (map (loadSkill env home) (filter safeName skills))"
      using h by (simp add: resolveSections_def osUserHomeDir_def Let_def case_prod_beta)
    have "snd (ResolveSkillContent env skills B tr) =
            snd (snd (resolveLoop env home skills (?B, [], ?tr)))"
      using h
      by (simp add: ResolveSkillContent_def resolveSections_def osUserHomeDir_def Let_def
            case_prod_beta)
    then show "set (fileReads (snd (ResolveSkillContent env skills B tr)))
             \<subseteq> set (fileReads tr) \<union> safeSkillFiles env home skills"
      using resolveLoop_reads[of env home skills ?B "[]" ?tr] by (simp add: fileReads_append)
  }
  {
    assume a: "UserHomeDir env = Inr home \<and> filter safeName skills = [n]
        \<and> loadSkill env home n = Some (name, body)
        \<and> tagOverheadOf name < B \<and> int (length body) + tagOverheadOf name \<le> B"
    then have "ResolveSkillContent env [n] B tr =
          (skillBlock name body,
           snd (findSkillFile env home name (tr @ [CallUserHomeDir]))
             @ [CallReadFile (fst (findSkillFile env home name []))])"
      using resolve_single[of env home n name body B tr] by blast
    then show "ResolveSkillContent env skills B tr =
          (skillBlock name body,
           snd (findSkillFile env home name (tr @ [CallUserHomeDir]))
             @ [CallReadFile (fst (findSkillFile env home name []))])"
      using eq a by simp
  }
qed

lemma skillEnv_safe:
  "map safeName [''../x'', '' a '', ''a b'', ''a/'', ''b'' @ [LF]] =
     [False, True, False, False, True]"
  by code_simp

lemma skillEnv_valid_one:
  "filter safeName [''../x'', '' a '', ''a b'', ''a/''] = ['' a '']
   \<and> loadSkill skillEnv ''/h'' '' a '' = Some (''a'', ''codex body'')
   \<and> tagOverheadOf ''a'' = 26
   \<and> findSkillFile skillEnv ''/h'' ''a'' [] =
        (''/h/.codex/skills/a/SKILL.md'', [CallStat ''/h/.codex/skills/a/SKILL.md''])
   \<and> findSkillFile skillEnv ''/h'' ''a'' [CallUserHomeDir] =
        (''/h/.codex/skills/a/SKILL.md'', [CallUserHomeDir, CallStat ''/h/.codex/skills/a/SKILL.md''])"
  by code_simp

theorem unsafe_names_dropped_witness:
  "list_all (\<lambda>n. \<not> safeName n) [''../x'', ''a b'', ''a/'']
   \<and> ResolveSkillContent skillEnv [''../x'', ''a b'', ''a/''] 0 [] = ([], [CallUserHomeDir])
   \<and> UserHomeDir skillEnv = Inr ''/h''
   \<and> filter safeName [''../x'', '' a '', ''a b'', ''a/''] = ['' a '']
   \<and> loadSkill skillEnv ''/h'' '' a '' = Some (''a'', ''codex body'')
   \<and> tagOverheadOf ''a'' < (100::int)
   \<and> int (length ''codex body'') + tagOverheadOf ''a'' \<le> 100
   \<and> ResolveSkillContent skillEnv [''../x'', '' a '', ''a b'', ''a/''] 100 [] =
        (skillBlock ''a'' ''codex body'',
         [CallUserHomeDir, CallStat ''/h/.codex/skills/a/SKILL.md'',
          CallReadFile ''/h/.codex/skills/a/SKILL.md''])
   \<and> ResolveSkillContent skillEnv [''../x'', '' a '', ''a b'', ''a/''] 100 [] =
        ResolveSkillContent skillEnv ['' a ''] 100 []
   \<and> fst (resolveSections skillEnv [''../x'', '' a '', ''a b'', ''a/''] 100 []) =
        [skillBlock ''a'' ''codex body'']"
proof -
  let ?mixed = "[''../x'', '' a '', ''a b'', ''a/'']"
  have s: "safeName ''../x'' = False" "safeName '' a '' = True" "safeName ''a b'' = False"
    "safeName ''a/'' = False"
    using skillEnv_safe by simp_all
  note v = skillEnv_valid_one
  have h: "UserHomeDir skillEnv = Inr ''/h''" by (simp add: skillEnv_def)
  note t = unsafe_names_dropped[where env = skillEnv and home = "''/h''" and tr = "[]"]
  from t[where skills = "[''../x'', ''a b'', ''a/'']" and B = 0]
  have "(\<forall>n\<in>set [''../x'', ''a b'', ''a/'']. \<not> safeName n) \<longrightarrow>
        ResolveSkillContent skillEnv [''../x'', ''a b'', ''a/''] 0 [] = ([], [] @ [CallUserHomeDir])"
    by blast
  with s have 1:
    "ResolveSkillContent skillEnv [''../x'', ''a b'', ''a/''] 0 [] = ([], [CallUserHomeDir])"
    by simp
  note u = t[where skills = ?mixed and B = 100 and n = "'' a ''" and name = "''a''"
      and body = "''codex body''"]
  from u have "UserHomeDir skillEnv = Inr ''/h'' \<and> filter safeName ?mixed = ['' a '']
        \<and> loadSkill skillEnv ''/h'' '' a '' = Some (''a'', ''codex body'')
        \<and> tagOverheadOf ''a'' < 100 \<and> int (length ''codex body'') + tagOverheadOf ''a'' \<le> 100 \<longrightarrow>
        ResolveSkillContent skillEnv ?mixed 100 [] =
          (skillBlock ''a'' ''codex body'',
           snd (findSkillFile skillEnv ''/h'' ''a'' ([] @ [CallUserHomeDir]))
             @ [CallReadFile (fst (findSkillFile skillEnv ''/h'' ''a'' []))])"
    by blast
  with v h have 2: "ResolveSkillContent skillEnv ?mixed 100 [] =
        (skillBlock ''a'' ''codex body'',
         [CallUserHomeDir, CallStat ''/h/.codex/skills/a/SKILL.md'',
          CallReadFile ''/h/.codex/skills/a/SKILL.md''])"
    by simp
  from u have "ResolveSkillContent skillEnv ?mixed 100 [] =
      ResolveSkillContent skillEnv (filter safeName ?mixed) 100 []"
    by blast
  with v have 3: "ResolveSkillContent skillEnv ?mixed 100 [] = ResolveSkillContent skillEnv ['' a ''] 100 []"
    by simp
  from u h have "fst (resolveSections skillEnv ?mixed 100 []) =
          budgetedBlocks (if (100::int) \<le> 0 then defaultSkillBudget else 100)
            (map (loadSkill skillEnv ''/h'') (filter safeName ?mixed))"
    by blast
  with v have 4: "fst (resolveSections skillEnv ?mixed 100 []) = [skillBlock ''a'' ''codex body'']"
    by simp
  show ?thesis using 1 2 4 s v h by (simp add: 3)
qed

end
